theory Spec2Isabelle
  imports Main "HOL-Library.AList" "HOL-Library.Word"
begin

section \<open>Documents\<close>

text \<open>
  The document types of the versions service.  An optional field (\<open>pk?: boolean\<close>,
  \<open>stereotype?: string\<close>) is an \<open>option\<close>; \<open>None\<close> is JavaScript's
  \<open>undefined\<close>.  Fields the type declares as required are present, so the defensive
  \<open>x.attrs ?? []\<close> and \<open>d.entities ?? []\<close> of the source read the field itself.
  The constraints of a document are opaque (\<open>any[]\<close>): the type parameter \<open>'c\<close>.
\<close>

record Attr =
  name_attr :: string
  type_attr :: string
  pk_attr :: "bool option"
  unique_attr :: "bool option"
  nullable_attr :: "bool option"

record Entity =
  name_ent :: string
  stereotype_ent :: "string option"
  attrs_ent :: "Attr list"

datatype RelKind = association | aggregation | composition

record Relation =
  from_rel :: string
  to_rel :: string
  kind_rel :: RelKind
  fromCard_rel :: "string option"
  toCard_rel :: "string option"

record 'c DSL =
  entities :: "Entity list"
  relations :: "Relation list"
  constraints :: "'c list option"

subsection \<open>JavaScript \<open>Map\<close> and \<open>Set\<close>, in insertion order\<close>

text \<open>
  A \<open>Map\<close> is an association list with distinct keys in insertion order.
  \<open>Map.prototype.set\<close> replaces the value of a key that is present, in place, and
  appends a new key at the end.
\<close>

definition map_set :: "'k \<Rightarrow> 'v \<Rightarrow> ('k \<times> 'v) list \<Rightarrow> ('k \<times> 'v) list" where
  "map_set k v m = AList.update k v m"

definition map_get :: "('k \<times> 'v) list \<Rightarrow> 'k \<Rightarrow> 'v option" where
  "map_get m k = map_of m k"

definition map_has :: "('k \<times> 'v) list \<Rightarrow> 'k \<Rightarrow> bool" where
  "map_has m k = (map_of m k \<noteq> None)"

definition map_keys :: "('k \<times> 'v) list \<Rightarrow> 'k list" where
  "map_keys m = map fst m"

definition map_values :: "('k \<times> 'v) list \<Rightarrow> 'v list" where
  "map_values m = map snd m"

text \<open>\<open>new Set(xs)\<close>: the elements of \<open>xs\<close>, each once, in order of first occurrence.\<close>

definition set_add :: "'a list \<Rightarrow> 'a \<Rightarrow> 'a list" where
  "set_add s x = (if x \<in> set s then s else s @ [x])"

definition new_Set :: "'a list \<Rightarrow> 'a list" where
  "new_Set xs = foldl set_add [] xs"

text \<open>\<open>!!x\<close> on an optional boolean, \<open>x ?? ''\<close> on an optional string.\<close>

fun truthy :: "bool option \<Rightarrow> bool" where
  "truthy None = False"
| "truthy (Some b) = b"

fun pick :: "string option \<Rightarrow> string" where
  "pick None = []"
| "pick (Some s) = s"

subsection \<open>Indexes\<close>

text \<open>
  \<open>indexByName\<close> is generic in the source (\<open>T extends { name: string }\<close>); here the
  projection of the name is its first argument.
\<close>

definition indexByName :: "('a \<Rightarrow> string) \<Rightarrow> 'a list \<Rightarrow> (string \<times> 'a) list" where
  "indexByName nm arr = foldl (\<lambda>m it. map_set (nm it) it m) [] arr"

definition keyRel :: "Relation \<Rightarrow> string" where
  "keyRel r = from_rel r @ ''::'' @ to_rel r"

definition indexEntities :: "'c DSL \<Rightarrow> (string \<times> Entity) list" where
  "indexEntities d = foldl (\<lambda>m e. map_set (name_ent e) e m) [] (entities d)"

definition indexRelations :: "'c DSL \<Rightarrow> (string \<times> Relation) list" where
  "indexRelations d = foldl (\<lambda>m r. map_set (keyRel r) r m) [] (relations d)"

section \<open>Structural diff\<close>

definition sameAttr :: "Attr \<Rightarrow> Attr \<Rightarrow> bool" where
  "sameAttr a b \<longleftrightarrow>
     name_attr a = name_attr b \<and> type_attr a = type_attr b \<and>
     truthy (pk_attr a) = truthy (pk_attr b) \<and>
     truthy (unique_attr a) = truthy (unique_attr b) \<and>
     truthy (nullable_attr a) = truthy (nullable_attr b)"

record AttrChange =
  name_ac :: string
  from_ac :: Attr
  to_ac :: Attr

record EntityChange =
  name_ec :: string
  stereotype_from :: "string option"
  stereotype_to :: "string option"
  attrAdded :: "Attr list"
  attrRemoved :: "Attr list"
  attrChanged :: "AttrChange list"

record EntityDiff =
  added_ed :: "Entity list"
  removed_ed :: "Entity list"
  changed_ed :: "EntityChange list"

record RelationChange =
  key_rc :: string
  from_rc :: Relation
  to_rc :: Relation

record RelationDiff =
  added_rd :: "Relation list"
  removed_rd :: "Relation list"
  changed_rd :: "RelationChange list"

text \<open>The three loops over the attributes of an entity that is on both sides.\<close>

definition attrs_removed :: "(string \<times> Attr) list \<Rightarrow> (string \<times> Attr) list \<Rightarrow> Attr list" where
  "attrs_removed attrsA attrsB = map snd (filter (\<lambda>(an, atA). \<not> map_has attrsB an) attrsA)"

definition attrs_changed :: "(string \<times> Attr) list \<Rightarrow> (string \<times> Attr) list \<Rightarrow> AttrChange list" where
  "attrs_changed attrsA attrsB =
     concat (map (\<lambda>(an, atA).
        case map_get attrsB an of
          None \<Rightarrow> []
        | Some atB \<Rightarrow>
            if \<not> sameAttr atA atB then [\<lparr>name_ac = an, from_ac = atA, to_ac = atB\<rparr>] else [])
      attrsA)"

definition attrs_added :: "(string \<times> Attr) list \<Rightarrow> (string \<times> Attr) list \<Rightarrow> Attr list" where
  "attrs_added attrsA attrsB = map snd (filter (\<lambda>(an, atB). \<not> map_has attrsA an) attrsB)"

text \<open>The body of the loop over \<open>A\<close> for an entity that \<open>B\<close> has too.\<close>

definition entity_change :: "string \<Rightarrow> Entity \<Rightarrow> Entity \<Rightarrow> EntityChange list" where
  "entity_change name eA eB =
     (let attrsA = indexByName name_attr (attrs_ent eA);
          attrsB = indexByName name_attr (attrs_ent eB);
          aRemoved = attrs_removed attrsA attrsB;
          aChanged = attrs_changed attrsA attrsB;
          aAdded = attrs_added attrsA attrsB
      in if stereotype_ent eA \<noteq> stereotype_ent eB \<or> aAdded \<noteq> [] \<or> aRemoved \<noteq> [] \<or> aChanged \<noteq> []
         then [\<lparr>name_ec = name, stereotype_from = stereotype_ent eA, stereotype_to = stereotype_ent eB,
                attrAdded = aAdded, attrRemoved = aRemoved, attrChanged = aChanged\<rparr>]
         else [])"

definition diffEntities :: "Entity list \<Rightarrow> Entity list \<Rightarrow> EntityDiff" where
  "diffEntities a b =
     (let A = indexByName name_ent a; B = indexByName name_ent b
      in \<lparr>added_ed = map snd (filter (\<lambda>(name, eB). \<not> map_has A name) B),
          removed_ed = map snd (filter (\<lambda>(name, eA). \<not> map_has B name) A),
          changed_ed = concat (map (\<lambda>(name, eA).
             case map_get B name of None \<Rightarrow> [] | Some eB \<Rightarrow> entity_change name eA eB) A)\<rparr>)"

definition relation_differs :: "Relation \<Rightarrow> Relation \<Rightarrow> bool" where
  "relation_differs rA rB \<longleftrightarrow>
     kind_rel rA \<noteq> kind_rel rB \<or> pick (fromCard_rel rA) \<noteq> pick (fromCard_rel rB) \<or>
     pick (toCard_rel rA) \<noteq> pick (toCard_rel rB)"

definition diffRelations :: "Relation list \<Rightarrow> Relation list \<Rightarrow> RelationDiff" where
  "diffRelations a b =
     (let A = indexByName keyRel a; B = indexByName keyRel b
      in \<lparr>added_rd = map snd (filter (\<lambda>(k, rB). \<not> map_has A k) B),
          removed_rd = map snd (filter (\<lambda>(k, rA). \<not> map_has B k) A),
          changed_rd = concat (map (\<lambda>(k, rA).
             case map_get B k of
               None \<Rightarrow> []
             | Some rB \<Rightarrow> if relation_differs rA rB then [\<lparr>key_rc = k, from_rc = rA, to_rc = rB\<rparr>] else [])
           A)\<rparr>)"

section \<open>Three-way merge\<close>

datatype Conflict =
    EntityStereotypeConflict string "string option" "string option"
  | AttrConflict string string Attr Attr
  | RelationConflict string Relation Relation

text \<open>\<open>x.stereotype ?? y\<close>: the left operand unless it is undefined.\<close>

fun nullish :: "'a option \<Rightarrow> 'a option \<Rightarrow> 'a option" where
  "nullish (Some x) y = Some x"
| "nullish None y = y"

text \<open>The local \<open>same\<close> of the attribute merge: it does not compare the names.\<close>

definition same :: "Attr \<Rightarrow> Attr \<Rightarrow> bool" where
  "same x y \<longleftrightarrow>
     type_attr x = type_attr y \<and> truthy (pk_attr x) = truthy (pk_attr y) \<and>
     truthy (unique_attr x) = truthy (unique_attr y) \<and>
     truthy (nullable_attr x) = truthy (nullable_attr y)"

definition eq_rel :: "Relation \<Rightarrow> Relation \<Rightarrow> bool" where
  "eq_rel x y \<longleftrightarrow>
     kind_rel x = kind_rel y \<and> pick (fromCard_rel x) = pick (fromCard_rel y) \<and>
     pick (toCard_rel x) = pick (toCard_rel y)"

definition find_attr :: "Attr list \<Rightarrow> string \<Rightarrow> Attr option" where
  "find_attr as an = List.find (\<lambda>a. name_attr a = an) as"

text \<open>
  One turn of the loop over the attribute names of an entity: what it stores in
  \<open>mAttrs\<close> under \<open>an\<close> (if anything) and the conflicts it pushes.  The equations are
  the source's tests, in its order.
\<close>

fun merge_attr :: "string \<Rightarrow> string \<Rightarrow> Attr option \<Rightarrow> Attr option \<Rightarrow> Attr option
    \<Rightarrow> Attr option \<times> Conflict list" where
  "merge_attr name an None (Some ao) None = (Some ao, [])"
| "merge_attr name an None None (Some at) = (Some at, [])"
| "merge_attr name an (Some bo) None None = (None, [])"
| "merge_attr name an (Some bo) (Some ao) None = (Some ao, [])"
| "merge_attr name an (Some bo) None (Some at) = (Some at, [])"
| "merge_attr name an None (Some ao) (Some at) =
     (if \<not> same ao at then (Some ao, [AttrConflict name an ao at]) else (Some ao, []))"
| "merge_attr name an (Some bo) (Some ao) (Some at) =
     (if \<not> same ao at \<and> (\<not> same ao bo \<and> \<not> same at bo)
      then (Some ao, [AttrConflict name an ao at]) else (Some ao, []))"
| "merge_attr name an None None None = (None, [])"

fun merge_attrs_loop :: "string \<Rightarrow> Attr list \<Rightarrow> Attr list \<Rightarrow> Attr list \<Rightarrow> string list
    \<Rightarrow> (string \<times> Attr) list \<times> Conflict list \<Rightarrow> (string \<times> Attr) list \<times> Conflict list" where
  "merge_attrs_loop name bas oas tas [] st = st"
| "merge_attrs_loop name bas oas tas (an # ans) (mAttrs, conflicts) =
     (case merge_attr name an (find_attr bas an) (find_attr oas an) (find_attr tas an) of
        (r, cs) \<Rightarrow>
          merge_attrs_loop name bas oas tas ans
            (case r of None \<Rightarrow> mAttrs | Some a \<Rightarrow> map_set an a mAttrs, conflicts @ cs))"

text \<open>
  An entity that ours and theirs both have (\<open>b\<close> is the entity of base, if any): the
  stereotype test, the attribute loop, and the entity that is stored.
\<close>

definition merge_both :: "string \<Rightarrow> Entity option \<Rightarrow> Entity \<Rightarrow> Entity \<Rightarrow> Entity \<times> Conflict list" where
  "merge_both name b o' t =
     (let bst = (case b of None \<Rightarrow> None | Some e \<Rightarrow> stereotype_ent e);
          bas = (case b of None \<Rightarrow> [] | Some e \<Rightarrow> attrs_ent e);
          c1 = (if pick (stereotype_ent o') \<noteq> pick (stereotype_ent t) \<and>
                   pick (stereotype_ent o') \<noteq> pick bst \<and> pick (stereotype_ent t) \<noteq> pick bst
                then [EntityStereotypeConflict name (stereotype_ent o') (stereotype_ent t)] else []);
          names = new_Set (map name_attr (attrs_ent o') @ map name_attr (attrs_ent t) @ map name_attr bas);
          (mAttrs, cs) = merge_attrs_loop name bas (attrs_ent o') (attrs_ent t) names ([], c1)
      in (\<lparr>name_ent = name,
           stereotype_ent = nullish (stereotype_ent o') (nullish (stereotype_ent t) bst),
           attrs_ent = map_values mAttrs\<rparr>, cs))"

fun merge_entity :: "string \<Rightarrow> Entity option \<Rightarrow> Entity option \<Rightarrow> Entity option
    \<Rightarrow> Entity option \<times> Conflict list" where
  "merge_entity name None (Some o') None = (Some o', [])"
| "merge_entity name None None (Some t) = (Some t, [])"
| "merge_entity name (Some b) None None = (None, [])"
| "merge_entity name (Some b) (Some o') None = (Some o', [])"
| "merge_entity name (Some b) None (Some t) = (Some t, [])"
| "merge_entity name None None None = (None, [])"
| "merge_entity name b (Some o') (Some t) =
     (case merge_both name b o' t of (e, cs) \<Rightarrow> (Some e, cs))"

fun merge_entities_loop :: "(string \<times> Entity) list \<Rightarrow> (string \<times> Entity) list \<Rightarrow> (string \<times> Entity) list
    \<Rightarrow> string list \<Rightarrow> (string \<times> Entity) list \<times> Conflict list
    \<Rightarrow> (string \<times> Entity) list \<times> Conflict list" where
  "merge_entities_loop bE oE tE [] st = st"
| "merge_entities_loop bE oE tE (name # ns) (resEntities, conflicts) =
     (case merge_entity name (map_get bE name) (map_get oE name) (map_get tE name) of
        (r, cs) \<Rightarrow>
          merge_entities_loop bE oE tE ns
            (case r of None \<Rightarrow> resEntities | Some e \<Rightarrow> map_set name e resEntities, conflicts @ cs))"

fun merge_relation :: "string \<Rightarrow> Relation option \<Rightarrow> Relation option \<Rightarrow> Relation option
    \<Rightarrow> Relation option \<times> Conflict list" where
  "merge_relation k None (Some o') None = (Some o', [])"
| "merge_relation k None None (Some t) = (Some t, [])"
| "merge_relation k (Some b) None None = (None, [])"
| "merge_relation k (Some b) (Some o') None = (Some o', [])"
| "merge_relation k (Some b) None (Some t) = (Some t, [])"
| "merge_relation k None None None = (None, [])"
| "merge_relation k None (Some o') (Some t) =
     (if \<not> eq_rel o' t then (Some o', [RelationConflict k o' t]) else (Some o', []))"
| "merge_relation k (Some b) (Some o') (Some t) =
     (if \<not> eq_rel o' t \<and> (\<not> eq_rel o' b \<and> \<not> eq_rel t b)
      then (Some o', [RelationConflict k o' t]) else (Some o', []))"

fun merge_relations_loop :: "(string \<times> Relation) list \<Rightarrow> (string \<times> Relation) list
    \<Rightarrow> (string \<times> Relation) list \<Rightarrow> string list \<Rightarrow> (string \<times> Relation) list \<times> Conflict list
    \<Rightarrow> (string \<times> Relation) list \<times> Conflict list" where
  "merge_relations_loop bR oR tR [] st = st"
| "merge_relations_loop bR oR tR (k # ks) (resRelations, conflicts) =
     (case merge_relation k (map_get bR k) (map_get oR k) (map_get tR k) of
        (r, cs) \<Rightarrow>
          merge_relations_loop bR oR tR ks
            (case r of None \<Rightarrow> resRelations | Some x \<Rightarrow> map_set k x resRelations, conflicts @ cs))"

record 'c MergeOutput =
  result :: "'c DSL"
  conflicts :: "Conflict list"

definition threeWayMerge :: "'c DSL \<Rightarrow> 'c DSL \<Rightarrow> 'c DSL \<Rightarrow> 'c MergeOutput" where
  "threeWayMerge base ours theirs =
     (let bE = indexEntities base; oE = indexEntities ours; tE = indexEntities theirs;
          allNames = new_Set (map_keys bE @ map_keys oE @ map_keys tE);
          (resEntities, conflicts1) = merge_entities_loop bE oE tE allNames ([], []);
          bR = indexRelations base; oR = indexRelations ours; tR = indexRelations theirs;
          allR = new_Set (map_keys bR @ map_keys oR @ map_keys tR);
          (resRelations, conflicts2) = merge_relations_loop bR oR tR allR ([], conflicts1)
      in \<lparr>result = \<lparr>entities = map_values resEntities, relations = map_values resRelations,
                     constraints = Some (case constraints base of None \<Rightarrow> [] | Some cs \<Rightarrow> cs)\<rparr>,
          conflicts = conflicts2\<rparr>)"

section \<open>The store\<close>

text \<open>
  The tables the versions service reads and writes, each a list of rows in insertion
  order.  The identifier and the \<open>createdAt\<close> of a new row are supplied by the database;
  here they are arguments of the operation that creates the row.  Exceptions are values:
  an operation returns its outcome together with the store it leaves behind, since a
  throw does not undo the writes before it.  The messages of the exceptions are not
  modelled.  \<open>UniqueConstraintViolation\<close> is the error of the database client when an
  insert breaks a unique index; \<open>WriteFailed\<close> is any other rejection of a write.  The
  project and the user a new row refers to exist: the guards of the controller have
  looked both up before the service is called.

  Identifiers are compared and cut, never inspected, and are plain \<open>string\<close>s.  The name
  of a branch is trimmed, which looks at its characters: a text that holds it is a
  JavaScript string, a sequence of UTF-16 code units.
\<close>

type_synonym jsstring = "16 word list"

text \<open>A literal of the source as code units.\<close>

definition lit :: "string \<Rightarrow> jsstring" where
  "lit s = map (\<lambda>c. of_nat (of_char c)) s"

datatype error = BadRequestException | NotFoundException | UniqueConstraintViolation | WriteFailed

record 'c ModelVersion =
  id_v :: string
  projectId_v :: string
  branchId_v :: string
  parentVersionId_v :: "string option"
  authorId_v :: string
  message_v :: "jsstring option"
  content_v :: "'c DSL"
  createdAt_v :: nat

record Branch =
  id_b :: string
  projectId_b :: string
  name_b :: jsstring
  isDefault_b :: bool
  createdById_b :: string
  createdAt_b :: nat

datatype MergeStatus = COMPLETED | CONFLICTS

record Merge =
  id_m :: string
  projectId_m :: string
  sourceBranchId_m :: string
  targetBranchId_m :: string
  sourceVersionId_m :: string
  targetVersionId_m :: string
  resultVersionId_m :: "string option"
  status_m :: MergeStatus
  conflicts_m :: "Conflict list option"
  createdById_m :: string

datatype AuditMetadata =
    BranchMetadata jsstring
  | RestoreMetadata string
  | MergeMetadata nat string

record AuditLog =
  projectId_a :: string
  actorId_a :: string
  action_a :: string
  targetType_a :: string
  targetId_a :: string
  metadata_a :: AuditMetadata

record Counts =
  added_n :: nat
  removed_n :: nat
  changed_n :: nat

record DiffReport =
  summary_entities :: Counts
  summary_relations :: Counts
  entities_r :: EntityDiff
  relations_r :: RelationDiff

record ModelDiff =
  projectId_d :: string
  fromVersionId_d :: string
  toVersionId_d :: string
  diff_d :: DiffReport

record 'c Store =
  versions :: "'c ModelVersion list"
  branches :: "Branch list"
  merges :: "Merge list"
  auditLogs :: "AuditLog list"
  modelDiffs :: "ModelDiff list"

text \<open>\<open>modelVersion.findFirst({ where: { id, projectId } })\<close>.\<close>

definition findVersion :: "'c Store \<Rightarrow> string \<Rightarrow> string \<Rightarrow> 'c ModelVersion option" where
  "findVersion s projectId versionId =
     List.find (\<lambda>v. id_v v = versionId \<and> projectId_v v = projectId) (versions s)"

definition getVersion :: "'c Store \<Rightarrow> string \<Rightarrow> string \<Rightarrow> error + 'c ModelVersion" where
  "getVersion s projectId versionId =
     (case findVersion s projectId versionId of
        None \<Rightarrow> Inl NotFoundException
      | Some v \<Rightarrow> Inr v)"

text \<open>
  \<open>findFirst({ where: { projectId, branchId }, orderBy: { createdAt: 'desc' } })\<close>: a row
  of the branch with the greatest \<open>createdAt\<close>; among rows with equal \<open>createdAt\<close> the
  database is free to choose, and the model takes the one stored first.
\<close>

fun latest :: "'c ModelVersion list \<Rightarrow> 'c ModelVersion option" where
  "latest [] = None"
| "latest (v # vs) =
     (case latest vs of
        None \<Rightarrow> Some v
      | Some w \<Rightarrow> if createdAt_v v < createdAt_v w then Some w else Some v)"

definition findHead :: "'c Store \<Rightarrow> string \<Rightarrow> string \<Rightarrow> 'c ModelVersion option" where
  "findHead s projectId branchId =
     latest (filter (\<lambda>v. projectId_v v = projectId \<and> branchId_v v = branchId) (versions s))"

section \<open>Branches\<close>

text \<open>
  \<open>String.prototype.trim\<close> removes white space and line terminators from both ends.
  These are the code units U+0009 to U+000D, U+0020, U+00A0, U+1680, U+2000 to U+200A,
  U+2028, U+2029, U+202F, U+205F, U+3000 and U+FEFF (ECMAScript \<open>WhiteSpace\<close>, which
  includes the category Zs, and \<open>LineTerminator\<close>).
\<close>

definition is_space :: "16 word \<Rightarrow> bool" where
  "is_space c \<longleftrightarrow>
     c \<in> set [0x0009, 0x000A, 0x000B, 0x000C, 0x000D, 0x0020, 0x00A0, 0x1680,
               0x2028, 0x2029, 0x202F, 0x205F, 0x3000, 0xFEFF] \<or>
     (0x2000 \<le> c \<and> c \<le> 0x200A)"

definition trim :: "jsstring \<Rightarrow> jsstring" where
  "trim s = rev (dropWhile is_space (rev (dropWhile is_space s)))"

text \<open>
  The unique index on the project and the name of a branch: \<open>branch.create\<close> is
  rejected when the project already has a branch of that name.
\<close>

definition branchNameTaken :: "'c Store \<Rightarrow> string \<Rightarrow> jsstring \<Rightarrow> bool" where
  "branchNameTaken s projectId name =
     list_ex (\<lambda>b. projectId_b b = projectId \<and> name_b b = name) (branches s)"

definition createBranch :: "'c Store \<Rightarrow> string \<Rightarrow> string \<Rightarrow> nat \<Rightarrow> string \<Rightarrow> string \<Rightarrow> jsstring
    \<Rightarrow> string option \<Rightarrow> (error + Branch) \<times> 'c Store" where
  "createBranch s newBranchId newVersionId now projectId userId name fromVersionId =
     (if trim name = [] then (Inl BadRequestException, s)
      else if branchNameTaken s projectId (trim name) then (Inl UniqueConstraintViolation, s)
      else
        let created = \<lparr>id_b = newBranchId, projectId_b = projectId, name_b = trim name,
                       isDefault_b = False, createdById_b = userId, createdAt_b = now\<rparr>;
            s1 = s\<lparr>branches := branches s @ [created]\<rparr>;
            audit = \<lparr>projectId_a = projectId, actorId_a = userId, action_a = ''BRANCH_CREATE'',
                     targetType_a = ''Branch'', targetId_a = id_b created,
                     metadata_a = BranchMetadata name\<rparr>
        in case fromVersionId of
             None \<Rightarrow> (Inr created, s1\<lparr>auditLogs := auditLogs s1 @ [audit]\<rparr>)
           | Some fv \<Rightarrow>
               if fv = [] then (Inr created, s1\<lparr>auditLogs := auditLogs s1 @ [audit]\<rparr>)
               else
                 (case findVersion s1 projectId fv of
                    None \<Rightarrow> (Inl NotFoundException, s1)
                  | Some base \<Rightarrow>
                      let seed = \<lparr>id_v = newVersionId, projectId_v = projectId, branchId_v = id_b created,
                                  parentVersionId_v = Some (id_v base), authorId_v = userId,
                                  message_v = Some (lit ''branch: '' @ name @ lit '' from '' @
                                                    lit (take 7 (id_v base))),
                                  content_v = content_v base, createdAt_v = now\<rparr>;
                          s2 = s1\<lparr>versions := versions s1 @ [seed]\<rparr>
                      in (Inr created, s2\<lparr>auditLogs := auditLogs s2 @ [audit]\<rparr>)))"

section \<open>Diff of two versions\<close>

definition upsertDiff :: "ModelDiff list \<Rightarrow> string \<Rightarrow> string \<Rightarrow> string \<Rightarrow> DiffReport \<Rightarrow> ModelDiff list" where
  "upsertDiff ds projectId fromVersionId toVersionId r =
     (case List.find (\<lambda>d. fromVersionId_d d = fromVersionId \<and> toVersionId_d d = toVersionId) ds of
        Some d' \<Rightarrow>
          map (\<lambda>d. if fromVersionId_d d = fromVersionId \<and> toVersionId_d d = toVersionId
                    then d\<lparr>diff_d := r\<rparr> else d) ds
      | None \<Rightarrow>
          ds @ [\<lparr>projectId_d = projectId, fromVersionId_d = fromVersionId,
                 toVersionId_d = toVersionId, diff_d = r\<rparr>])"

definition diffReport :: "'c DSL \<Rightarrow> 'c DSL \<Rightarrow> DiffReport" where
  "diffReport a b =
     (let es = diffEntities (entities a) (entities b);
          rs = diffRelations (relations a) (relations b)
      in \<lparr>summary_entities = \<lparr>added_n = length (added_ed es), removed_n = length (removed_ed es),
                               changed_n = length (changed_ed es)\<rparr>,
          summary_relations = \<lparr>added_n = length (added_rd rs), removed_n = length (removed_rd rs),
                                changed_n = length (changed_rd rs)\<rparr>,
          entities_r = es, relations_r = rs\<rparr>)"

definition diff :: "'c Store \<Rightarrow> string \<Rightarrow> string \<Rightarrow> string \<Rightarrow> (error + DiffReport) \<times> 'c Store" where
  "diff s projectId fromVersionId toVersionId =
     (if fromVersionId = toVersionId then (Inl BadRequestException, s)
      else
        case getVersion s projectId fromVersionId of
          Inl e \<Rightarrow> (Inl e, s)
        | Inr A \<Rightarrow>
            (case getVersion s projectId toVersionId of
               Inl e \<Rightarrow> (Inl e, s)
             | Inr B \<Rightarrow>
                 let r = diffReport (content_v A) (content_v B)
                 in (Inr r, s\<lparr>modelDiffs := upsertDiff (modelDiffs s) projectId fromVersionId toVersionId r\<rparr>)))"

section \<open>Restore\<close>

definition restore :: "'c Store \<Rightarrow> string \<Rightarrow> nat \<Rightarrow> string \<Rightarrow> string \<Rightarrow> string \<Rightarrow> jsstring option
    \<Rightarrow> (error + 'c ModelVersion) \<times> 'c Store" where
  "restore s newVersionId now projectId userId versionId message =
     (case getVersion s projectId versionId of
        Inl e \<Rightarrow> (Inl e, s)
      | Inr v \<Rightarrow>
          let head = findHead s projectId (branchId_v v);
              created = \<lparr>id_v = newVersionId, projectId_v = projectId, branchId_v = branchId_v v,
                         parentVersionId_v = (case head of None \<Rightarrow> None | Some h \<Rightarrow> Some (id_v h)),
                         authorId_v = userId,
                         message_v = Some (case message of
                                             None \<Rightarrow> lit ''restore: '' @ lit (take 7 (id_v v))
                                           | Some m \<Rightarrow> m),
                         content_v = content_v v, createdAt_v = now\<rparr>;
              s1 = s\<lparr>versions := versions s @ [created]\<rparr>;
              audit = \<lparr>projectId_a = projectId, actorId_a = userId, action_a = ''MODEL_SNAPSHOT'',
                       targetType_a = ''ModelVersion'', targetId_a = id_v created,
                       metadata_a = RestoreMetadata (id_v v)\<rparr>
          in (Inr created, s1\<lparr>auditLogs := auditLogs s1 @ [audit]\<rparr>))"

section \<open>Common ancestor\<close>

text \<open>
  The two \<open>while (cur && limit-- > 0)\<close> loops; the recursion is on the limit.  A parent
  identifier that is null or the empty string ends the walk (\<open>!cur.parentVersionId\<close>).
\<close>

fun traceLoop :: "'c Store \<Rightarrow> string \<Rightarrow> nat \<Rightarrow> 'c ModelVersion \<Rightarrow> string list \<Rightarrow> error + string list" where
  "traceLoop s projectId 0 cur visited = Inr visited"
| "traceLoop s projectId (Suc limit) cur visited =
     (let visited' = set_add visited (id_v cur)
      in case parentVersionId_v cur of
           None \<Rightarrow> Inr visited'
         | Some p \<Rightarrow>
             if p = [] then Inr visited'
             else (case getVersion s projectId p of
                     Inl e \<Rightarrow> Inl e
                   | Inr next \<Rightarrow> traceLoop s projectId limit next visited'))"

definition traceParents :: "'c Store \<Rightarrow> string \<Rightarrow> string \<Rightarrow> nat \<Rightarrow> error + string list" where
  "traceParents s projectId startId limit =
     (case getVersion s projectId startId of
        Inl e \<Rightarrow> Inl e
      | Inr cur \<Rightarrow> traceLoop s projectId limit cur [])"

fun ancestorLoop :: "'c Store \<Rightarrow> string \<Rightarrow> nat \<Rightarrow> 'c ModelVersion \<Rightarrow> string list
    \<Rightarrow> error + 'c ModelVersion option" where
  "ancestorLoop s projectId 0 cur aAnc = Inr None"
| "ancestorLoop s projectId (Suc limit) cur aAnc =
     (if id_v cur \<in> set aAnc then Inr (Some cur)
      else case parentVersionId_v cur of
             None \<Rightarrow> Inr None
           | Some p \<Rightarrow>
               if p = [] then Inr None
               else (case getVersion s projectId p of
                       Inl e \<Rightarrow> Inl e
                     | Inr next \<Rightarrow> ancestorLoop s projectId limit next aAnc))"

definition findCommonAncestor :: "'c Store \<Rightarrow> string \<Rightarrow> string \<Rightarrow> string \<Rightarrow> error + 'c ModelVersion option" where
  "findCommonAncestor s projectId aId bId =
     (case traceParents s projectId aId 200 of
        Inl e \<Rightarrow> Inl e
      | Inr aAnc \<Rightarrow>
          (case getVersion s projectId bId of
             Inl e \<Rightarrow> Inl e
           | Inr cur \<Rightarrow> ancestorLoop s projectId 200 cur aAnc))"

section \<open>Merge\<close>

record MergeParams =
  sourceBranchId :: string
  targetBranchId :: string
  sourceVersionId :: string
  targetVersionId :: string

record MergeReply =
  mergeId :: string
  status :: MergeStatus
  conflicts_reply :: "Conflict list"
  resultVersionId :: string

text \<open>
  The four writes of \<open>merge\<close> are separate calls of the database client, none inside a
  transaction.  \<open>failing\<close> says which of them, if any, is rejected by the database
  (0 the insert of the merge record, 1 the insert of the result version, 2 the update of
  the merge record, 3 the insert of the audit record): the exception leaves the store as
  the writes before it made it.
\<close>

definition merge :: "'c Store \<Rightarrow> string \<Rightarrow> string \<Rightarrow> nat \<Rightarrow> nat option \<Rightarrow> string \<Rightarrow> string \<Rightarrow> MergeParams
    \<Rightarrow> (error + MergeReply) \<times> 'c Store" where
  "merge s newMergeId newVersionId now failing projectId userId params =
     (case getVersion s projectId (sourceVersionId params) of
        Inl e \<Rightarrow> (Inl e, s)
      | Inr src \<Rightarrow>
     (case getVersion s projectId (targetVersionId params) of
        Inl e \<Rightarrow> (Inl e, s)
      | Inr dst \<Rightarrow>
     if branchId_v src \<noteq> sourceBranchId params \<or> branchId_v dst \<noteq> targetBranchId params
     then (Inl BadRequestException, s)
     else
     (case findCommonAncestor s projectId (sourceVersionId params) (targetVersionId params) of
        Inl e \<Rightarrow> (Inl e, s)
      | Inr ancestor \<Rightarrow>
          let base = (case ancestor of
                        None \<Rightarrow> \<lparr>entities = [], relations = [], constraints = Some []\<rparr>
                      | Some a \<Rightarrow> content_v a);
              out = threeWayMerge base (content_v dst) (content_v src);
              st = (if conflicts out \<noteq> [] then CONFLICTS else COMPLETED);
              mergeRec = \<lparr>id_m = newMergeId, projectId_m = projectId,
                          sourceBranchId_m = sourceBranchId params, targetBranchId_m = targetBranchId params,
                          sourceVersionId_m = sourceVersionId params, targetVersionId_m = targetVersionId params,
                          resultVersionId_m = None, status_m = st,
                          conflicts_m = (if conflicts out \<noteq> [] then Some (conflicts out) else None),
                          createdById_m = userId\<rparr>;
              created = \<lparr>id_v = newVersionId, projectId_v = projectId, branchId_v = targetBranchId params,
                         parentVersionId_v = Some (targetVersionId params), authorId_v = userId,
                         message_v = Some (if conflicts out \<noteq> []
                                           then lit ''merge (with conflicts)'' else lit ''merge''),
                         content_v = result out, createdAt_v = now\<rparr>;
              audit = \<lparr>projectId_a = projectId, actorId_a = userId, action_a = ''MERGE'',
                       targetType_a = ''Merge'', targetId_a = id_m mergeRec,
                       metadata_a = MergeMetadata (length (conflicts out)) (id_v created)\<rparr>
          in if failing = Some 0 then (Inl WriteFailed, s)
             else let s1 = s\<lparr>merges := merges s @ [mergeRec]\<rparr>
             in if failing = Some 1 then (Inl WriteFailed, s1)
             else let s2 = s1\<lparr>versions := versions s1 @ [created]\<rparr>
             in if failing = Some 2 then (Inl WriteFailed, s2)
             else let s3 = s2\<lparr>merges := map (\<lambda>m. if id_m m = id_m mergeRec
                                                  then m\<lparr>resultVersionId_m := Some (id_v created)\<rparr> else m)
                                             (merges s2)\<rparr>
             in if failing = Some 3 then (Inl WriteFailed, s3)
             else (Inr \<lparr>mergeId = id_m mergeRec, status = st, conflicts_reply = conflicts out,
                        resultVersionId = id_v created\<rparr>,
                   s3\<lparr>auditLogs := auditLogs s3 @ [audit]\<rparr>))))"

section \<open>Notions used in the statements\<close>

text \<open>The report with nothing in any category.\<close>

definition emptyReport :: DiffReport where
  "emptyReport = \<lparr>summary_entities = \<lparr>added_n = 0, removed_n = 0, changed_n = 0\<rparr>,
      summary_relations = \<lparr>added_n = 0, removed_n = 0, changed_n = 0\<rparr>,
      entities_r = \<lparr>added_ed = [], removed_ed = [], changed_ed = []\<rparr>,
      relations_r = \<lparr>added_rd = [], removed_rd = [], changed_rd = []\<rparr>\<rparr>"

text \<open>
  The version reached from \<open>v\<close> by following \<open>k\<close> parent links that resolve in the
  project; it states what the two walks visit.
\<close>

fun nthParent :: "'c Store \<Rightarrow> string \<Rightarrow> 'c ModelVersion \<Rightarrow> nat \<Rightarrow> 'c ModelVersion option" where
  "nthParent s projectId v 0 = Some v"
| "nthParent s projectId v (Suc k) =
     (case parentVersionId_v v of
        None \<Rightarrow> None
      | Some p \<Rightarrow>
          if p = [] then None
          else (case findVersion s projectId p of
                  None \<Rightarrow> None
                | Some w \<Rightarrow> nthParent s projectId w k))"

text \<open>
  The parent links met on a walk of \<open>n\<close> turns from \<open>v\<close> resolve in the project: each
  of the up to \<open>n\<close> versions reached has no parent, or a parent that \<open>getVersion\<close>
  finds.  Links that form a cycle resolve.
\<close>

fun walkResolves :: "'c Store \<Rightarrow> string \<Rightarrow> 'c ModelVersion \<Rightarrow> nat \<Rightarrow> bool" where
  "walkResolves s projectId v 0 = True"
| "walkResolves s projectId v (Suc n) =
     (case parentVersionId_v v of
        None \<Rightarrow> True
      | Some p \<Rightarrow>
          if p = [] then True
          else (case findVersion s projectId p of
                  None \<Rightarrow> False
                | Some w \<Rightarrow> walkResolves s projectId w n))"

text \<open>
  The mirror image of a change: \<open>from\<close> and \<open>to\<close> exchanged, and with them the added and
  the removed attributes.  \<open>ec_view\<close> reads the changed attributes of an entity as a set.
\<close>

definition mirror_ac :: "AttrChange \<Rightarrow> AttrChange" where
  "mirror_ac c = \<lparr>name_ac = name_ac c, from_ac = to_ac c, to_ac = from_ac c\<rparr>"

definition mirror_ec :: "EntityChange \<Rightarrow> EntityChange" where
  "mirror_ec c = \<lparr>name_ec = name_ec c, stereotype_from = stereotype_to c, stereotype_to = stereotype_from c,
                  attrAdded = attrRemoved c, attrRemoved = attrAdded c,
                  attrChanged = map mirror_ac (attrChanged c)\<rparr>"

definition mirror_rc :: "RelationChange \<Rightarrow> RelationChange" where
  "mirror_rc c = \<lparr>key_rc = key_rc c, from_rc = to_rc c, to_rc = from_rc c\<rparr>"

definition ec_view :: "EntityChange \<Rightarrow> string \<times> string option \<times> string option \<times> Attr list \<times> Attr list \<times> AttrChange set" where
  "ec_view c = (name_ec c, stereotype_from c, stereotype_to c, attrAdded c, attrRemoved c, set (attrChanged c))"

text \<open>
  What the loops of the merge do to their \<open>Map\<close>: for each key in turn, the value the
  body computes for it, if any, is stored under the key.
\<close>

definition put_all :: "('k \<Rightarrow> 'v option) \<Rightarrow> ('k \<times> 'v) list \<Rightarrow> 'k list \<Rightarrow> ('k \<times> 'v) list" where
  "put_all f res ks = foldl (\<lambda>m k. case f k of None \<Rightarrow> m | Some v \<Rightarrow> map_set k v m) res ks"

text \<open>The turn of the entity loop and of the relation loop for one key of three documents.\<close>

definition entityAt :: "'c DSL \<Rightarrow> 'c DSL \<Rightarrow> 'c DSL \<Rightarrow> string \<Rightarrow> Entity option \<times> Conflict list" where
  "entityAt base ours theirs n =
     merge_entity n (map_get (indexEntities base) n) (map_get (indexEntities ours) n)
       (map_get (indexEntities theirs) n)"

definition relationAt :: "'c DSL \<Rightarrow> 'c DSL \<Rightarrow> 'c DSL \<Rightarrow> string \<Rightarrow> Relation option \<times> Conflict list" where
  "relationAt base ours theirs k =
     merge_relation k (map_get (indexRelations base) k) (map_get (indexRelations ours) k)
       (map_get (indexRelations theirs) k)"

definition allNames :: "'c DSL \<Rightarrow> 'c DSL \<Rightarrow> 'c DSL \<Rightarrow> string list" where
  "allNames base ours theirs =
     new_Set (map_keys (indexEntities base) @ map_keys (indexEntities ours) @ map_keys (indexEntities theirs))"

definition allR :: "'c DSL \<Rightarrow> 'c DSL \<Rightarrow> 'c DSL \<Rightarrow> string list" where
  "allR base ours theirs =
     new_Set (map_keys (indexRelations base) @ map_keys (indexRelations ours) @ map_keys (indexRelations theirs))"

text \<open>The conflicts recorded for one key.\<close>

fun is_stereotype_conflict :: "string \<Rightarrow> Conflict \<Rightarrow> bool" where
  "is_stereotype_conflict n (EntityStereotypeConflict n' x y) = (n' = n)"
| "is_stereotype_conflict n (AttrConflict n' an x y) = False"
| "is_stereotype_conflict n (RelationConflict k x y) = False"

fun is_attr_conflict :: "string \<Rightarrow> string \<Rightarrow> Conflict \<Rightarrow> bool" where
  "is_attr_conflict n an (EntityStereotypeConflict n' x y) = False"
| "is_attr_conflict n an (AttrConflict n' an' x y) = (n' = n \<and> an' = an)"
| "is_attr_conflict n an (RelationConflict k x y) = False"

fun is_relation_conflict :: "string \<Rightarrow> Conflict \<Rightarrow> bool" where
  "is_relation_conflict k (EntityStereotypeConflict n' x y) = False"
| "is_relation_conflict k (AttrConflict n' an x y) = False"
| "is_relation_conflict k (RelationConflict k' x y) = (k' = k)"

fun opt_list :: "'a option \<Rightarrow> 'a list" where
  "opt_list None = []"
| "opt_list (Some x) = [x]"


section \<open>Example inputs\<close>

definition w_doc0 :: "nat DSL" where
  "w_doc0 = \<lparr>entities = [], relations = [], constraints = None\<rparr>"

definition w_doc1 :: "nat DSL" where
  "w_doc1 = \<lparr>entities = [], relations = [], constraints = Some [1]\<rparr>"

definition w_doc2 :: "nat DSL" where
  "w_doc2 = \<lparr>entities = [], relations = [], constraints = Some [2]\<rparr>"

definition w_store0 :: "nat Store" where
  "w_store0 = \<lparr>versions = [], branches = [], merges = [], auditLogs = [], modelDiffs = []\<rparr>"

definition w_dev :: jsstring where
  "w_dev = [0x64, 0x65, 0x76]"

definition w_nbsp :: jsstring where
  "w_nbsp = [0xA0]"

definition w_store_dev :: "nat Store" where
  "w_store_dev = \<lparr>versions = [],
     branches = [\<lparr>id_b = ''b1'', projectId_b = ''p1'', name_b = w_dev, isDefault_b = False,
                  createdById_b = ''u1'', createdAt_b = 1\<rparr>],
     merges = [], auditLogs = [], modelDiffs = []\<rparr>"

definition w_attr_int :: Attr where
  "w_attr_int = \<lparr>name_attr = ''a'', type_attr = ''int'', pk_attr = None, unique_attr = None, nullable_attr = None\<rparr>"

definition w_attr_str :: Attr where
  "w_attr_str = \<lparr>name_attr = ''a'', type_attr = ''string'', pk_attr = None, unique_attr = None, nullable_attr = None\<rparr>"

definition w_docX :: "nat DSL" where
  "w_docX = \<lparr>entities = [\<lparr>name_ent = ''E'', stereotype_ent = None, attrs_ent = [w_attr_int]\<rparr>], relations = [], constraints = None\<rparr>"

definition w_docY :: "nat DSL" where
  "w_docY = \<lparr>entities = [\<lparr>name_ent = ''E'', stereotype_ent = None, attrs_ent = [w_attr_str]\<rparr>], relations = [], constraints = None\<rparr>"

definition w_v1 :: "nat ModelVersion" where
  "w_v1 = \<lparr>id_v = ''v1'', projectId_v = ''p1'', branchId_v = ''main'', parentVersionId_v = None,
           authorId_v = ''u1'', message_v = None, content_v = w_docX, createdAt_v = 1\<rparr>"

definition w_v2 :: "nat ModelVersion" where
  "w_v2 = \<lparr>id_v = ''v2'', projectId_v = ''p1'', branchId_v = ''main'', parentVersionId_v = Some ''v1'',
           authorId_v = ''u1'', message_v = None, content_v = w_docY, createdAt_v = 5\<rparr>"

definition w_v3 :: "nat ModelVersion" where
  "w_v3 = \<lparr>id_v = ''v3'', projectId_v = ''p1'', branchId_v = ''dev'', parentVersionId_v = Some ''v1'',
           authorId_v = ''u1'', message_v = None, content_v = w_docX, createdAt_v = 6\<rparr>"

definition w_store1 :: "nat Store" where
  "w_store1 = \<lparr>versions = [w_v1, w_v2, w_v3], branches = [], merges = [], auditLogs = [], modelDiffs = []\<rparr>"

definition w_c1 :: "nat ModelVersion" where
  "w_c1 = \<lparr>id_v = ''c1'', projectId_v = ''p1'', branchId_v = ''main'', parentVersionId_v = Some ''c2'',
           authorId_v = ''u1'', message_v = None, content_v = w_doc0, createdAt_v = 1\<rparr>"

definition w_c2 :: "nat ModelVersion" where
  "w_c2 = \<lparr>id_v = ''c2'', projectId_v = ''p1'', branchId_v = ''main'', parentVersionId_v = Some ''c1'',
           authorId_v = ''u1'', message_v = None, content_v = w_doc0, createdAt_v = 2\<rparr>"

definition w_c3 :: "nat ModelVersion" where
  "w_c3 = \<lparr>id_v = ''c3'', projectId_v = ''p1'', branchId_v = ''dev'', parentVersionId_v = None,
           authorId_v = ''u1'', message_v = None, content_v = w_doc0, createdAt_v = 3\<rparr>"

definition w_cyclic :: "nat Store" where
  "w_cyclic = \<lparr>versions = [w_c1, w_c2, w_c3], branches = [], merges = [], auditLogs = [], modelDiffs = []\<rparr>"

definition w_d1 :: "nat ModelVersion" where
  "w_d1 = \<lparr>id_v = ''d1'', projectId_v = ''p1'', branchId_v = ''main'', parentVersionId_v = Some ''x1'',
           authorId_v = ''u1'', message_v = None, content_v = w_doc0, createdAt_v = 2\<rparr>"

definition w_x1 :: "nat ModelVersion" where
  "w_x1 = \<lparr>id_v = ''x1'', projectId_v = ''p2'', branchId_v = ''main'', parentVersionId_v = None,
           authorId_v = ''u1'', message_v = None, content_v = w_doc0, createdAt_v = 1\<rparr>"

definition w_foreign :: "nat Store" where
  "w_foreign = \<lparr>versions = [w_x1, w_d1, w_c3], branches = [], merges = [], auditLogs = [], modelDiffs = []\<rparr>"

definition w_chainId :: "nat \<Rightarrow> string" where
  "w_chainId i = CHR ''k'' # replicate i (CHR ''a'')"

definition w_chainVersion :: "nat \<Rightarrow> nat ModelVersion" where
  "w_chainVersion i = \<lparr>id_v = w_chainId i, projectId_v = ''p1'', branchId_v = ''main'',
      parentVersionId_v = Some (w_chainId (Suc i)), authorId_v = ''u1'', message_v = None,
      content_v = w_doc0, createdAt_v = 300 - i\<rparr>"

definition w_chainTop :: "nat ModelVersion" where
  "w_chainTop = \<lparr>id_v = w_chainId 200, projectId_v = ''p2'', branchId_v = ''main'',
      parentVersionId_v = None, authorId_v = ''u1'', message_v = None,
      content_v = w_doc0, createdAt_v = 1\<rparr>"

definition w_chain :: "nat Store" where
  "w_chain = \<lparr>versions = w_c3 # map w_chainVersion [0..<200] @ [w_chainTop],
             branches = [], merges = [], auditLogs = [], modelDiffs = []\<rparr>"

definition w_params :: MergeParams where
  "w_params = \<lparr>sourceBranchId = ''dev'', targetBranchId = ''main'',
               sourceVersionId = ''v3'', targetVersionId = ''v2''\<rparr>"

definition w_attr_b :: Attr where
  "w_attr_b = \<lparr>name_attr = ''b'', type_attr = ''int'', pk_attr = None, unique_attr = None, nullable_attr = None\<rparr>"

definition w_rel1 :: Relation where
  "w_rel1 = \<lparr>from_rel = ''E'', to_rel = ''F'', kind_rel = association, fromCard_rel = None, toCard_rel = None\<rparr>"

definition w_rel2 :: Relation where
  "w_rel2 = \<lparr>from_rel = ''E'', to_rel = ''F'', kind_rel = composition, fromCard_rel = None, toCard_rel = None\<rparr>"

definition w_entsA :: "Entity list" where
  "w_entsA = [\<lparr>name_ent = ''E'', stereotype_ent = None, attrs_ent = [w_attr_int, w_attr_b]\<rparr>,
              \<lparr>name_ent = ''F'', stereotype_ent = None, attrs_ent = []\<rparr>]"

definition w_entsB :: "Entity list" where
  "w_entsB = [\<lparr>name_ent = ''G'', stereotype_ent = None, attrs_ent = []\<rparr>,
              \<lparr>name_ent = ''E'', stereotype_ent = Some ''abstract'', attrs_ent = [w_attr_str]\<rparr>]"

definition w_attr_bool :: Attr where
  "w_attr_bool = \<lparr>name_attr = ''a'', type_attr = ''bool'', pk_attr = None, unique_attr = None, nullable_attr = None\<rparr>"

definition w_rel3 :: Relation where
  "w_rel3 = \<lparr>from_rel = ''E'', to_rel = ''F'', kind_rel = aggregation, fromCard_rel = None, toCard_rel = None\<rparr>"

definition w_entE :: "string option \<Rightarrow> Attr \<Rightarrow> Entity" where
  "w_entE st a = \<lparr>name_ent = ''E'', stereotype_ent = st, attrs_ent = [a]\<rparr>"

definition w_entF :: Entity where
  "w_entF = \<lparr>name_ent = ''F'', stereotype_ent = None, attrs_ent = []\<rparr>"

definition w_base :: "nat DSL" where
  "w_base = \<lparr>entities = [w_entE (Some ''base'') w_attr_int, w_entF], relations = [w_rel1], constraints = None\<rparr>"

definition w_ours :: "nat DSL" where
  "w_ours = \<lparr>entities = [w_entE (Some ''ours'') w_attr_str, w_entF], relations = [w_rel2], constraints = None\<rparr>"

definition w_theirs :: "nat DSL" where
  "w_theirs = \<lparr>entities = [w_entE (Some ''theirs'') w_attr_bool], relations = [w_rel3], constraints = Some [4]\<rparr>"

definition w_ours1 :: "nat DSL" where
  "w_ours1 = \<lparr>entities = [w_entE (Some ''base'') w_attr_str, w_entF], relations = [w_rel1], constraints = None\<rparr>"

definition w_theirs1 :: "nat DSL" where
  "w_theirs1 = \<lparr>entities = [w_entE (Some ''base'') w_attr_int, w_entF], relations = [w_rel2], constraints = None\<rparr>"


definition w_nobase :: "nat DSL" where
  "w_nobase = \<lparr>entities = [], relations = [], constraints = None\<rparr>"

definition w_blank :: "nat DSL" where
  "w_blank = \<lparr>entities = [w_entE (Some []) w_attr_int], relations = [], constraints = None\<rparr>"

definition w_unset :: "nat DSL" where
  "w_unset = \<lparr>entities = [w_entE None w_attr_int], relations = [], constraints = None\<rparr>"

definition w_abstract :: "nat DSL" where
  "w_abstract = \<lparr>entities = [w_entE (Some ''abstract'') w_attr_int], relations = [], constraints = None\<rparr>"

section \<open>Maps and sets\<close>

lemma map_of_map_set: "map_of (map_set k v m) = (map_of m)(k \<mapsto> v)"
  by (simp add: map_set_def update_conv')

lemma distinct_map_set: "distinct (map fst m) \<Longrightarrow> distinct (map fst (map_set k v m))"
  by (simp add: map_set_def distinct_update)

lemma distinct_set_add: "distinct s \<Longrightarrow> distinct (set_add s x)"
  by (simp add: set_add_def)

lemma set_set_add: "set (set_add s x) = insert x (set s)"
  by (auto simp: set_add_def)

lemma foldl_set_add:
  "distinct s \<Longrightarrow> distinct (foldl set_add s xs) \<and> set (foldl set_add s xs) = set s \<union> set xs"
  by (induction xs arbitrary: s) (auto simp: distinct_set_add set_set_add)

lemma distinct_new_Set: "distinct (new_Set xs)"
  using foldl_set_add [of "[]" xs] by (simp add: new_Set_def)

lemma set_new_Set: "set (new_Set xs) = set xs"
  using foldl_set_add [of "[]" xs] by (simp add: new_Set_def)

lemma foldl_index_distinct:
  "distinct (map fst m) \<Longrightarrow> distinct (map fst (foldl (\<lambda>m it. map_set (nm it) it m) m arr))"
  by (induction arr arbitrary: m) (auto simp: distinct_map_set)

lemma distinct_indexByName: "distinct (map fst (indexByName nm arr))"
  using foldl_index_distinct [of "[]" nm arr] by (simp add: indexByName_def)

lemma map_has_iff: "map_has m k \<longleftrightarrow> k \<in> fst ` set m"
  by (simp add: map_has_def map_of_eq_None_iff)

lemma map_get_distinct: "distinct (map fst m) \<Longrightarrow> (k, v) \<in> set m \<Longrightarrow> map_get m k = Some v"
  by (simp add: map_get_def)

section \<open>Constraints of a merge\<close>

text \<open>
  C9.  For every base, ours and theirs, the constraints of the merged document are the
  constraints of base, and the empty sequence when base has none; what ours and theirs
  hold as constraints has no influence on them.
\<close>

theorem merge_constraints_from_base:
  "constraints (result (threeWayMerge base ours theirs)) =
     Some (case constraints base of None \<Rightarrow> [] | Some cs \<Rightarrow> cs) \<and>
   constraints (result (threeWayMerge base ours' theirs')) =
     constraints (result (threeWayMerge base ours theirs))"
  by (simp add: threeWayMerge_def Let_def split: prod.splits)

theorem merge_constraints_from_base_witness:
  "constraints (result (threeWayMerge w_doc0 w_doc1 w_doc2)) = Some [] \<and>
   constraints (result (threeWayMerge w_doc2 w_doc1 w_doc0)) = Some [2]"
  using merge_constraints_from_base [of w_doc0 w_doc1 w_doc2 w_doc1 w_doc2]
    merge_constraints_from_base [of w_doc2 w_doc1 w_doc0 w_doc1 w_doc0]
  by (simp add: w_doc0_def w_doc1_def w_doc2_def)

section \<open>A branch from a version that does not resolve\<close>

lemma findVersion_branches:
  "findVersion (s\<lparr>branches := bs\<rparr>) p v = findVersion s p v"
  by (simp add: findVersion_def)

text \<open>
  C10 as stated fails.  With a name the project already uses for a branch, the insert of
  the branch row is rejected by the unique index before the version is looked up: the
  error is not NotFound and no row is added.  And a name that is not empty but blank
  (here the no-break space alone) is rejected as BadRequest before any write.
\<close>

theorem createBranch_unresolved_counterexample:
  "w_dev \<noteq> [] \<and> findVersion w_store_dev ''p1'' ''ghost'' = None \<and>
   createBranch w_store_dev ''b9'' ''v9'' 7 ''p1'' ''u1'' w_dev (Some ''ghost'') =
     (Inl UniqueConstraintViolation, w_store_dev) \<and>
   w_nbsp \<noteq> [] \<and> findVersion w_store0 ''p1'' ''ghost'' = None \<and>
   createBranch w_store0 ''b9'' ''v9'' 7 ''p1'' ''u1'' w_nbsp (Some ''ghost'') =
     (Inl BadRequestException, w_store0)"
  by code_simp

text \<open>
  C10, amended.  When \<open>createBranch\<close> is called with a name that is not blank once
  trimmed and that no branch of the project bears yet, and with a \<open>fromVersionId\<close> that
  is not empty and does not resolve within the project, it throws NotFound after the
  branch row has been created: the store it leaves holds the new branch, no new version
  and no new audit entry.  A blank name is rejected as BadRequest and a name already
  taken in the project by the unique index, each with the store unchanged.
\<close>

theorem createBranch_unresolved_leaves_branch:
  "(trim name = [] \<longrightarrow>
      createBranch s newBranchId newVersionId now projectId userId name fromVersionId =
        (Inl BadRequestException, s)) \<and>
   (trim name \<noteq> [] \<and> branchNameTaken s projectId (trim name) \<longrightarrow>
      createBranch s newBranchId newVersionId now projectId userId name fromVersionId =
        (Inl UniqueConstraintViolation, s)) \<and>
   (trim name \<noteq> [] \<and> \<not> branchNameTaken s projectId (trim name) \<and>
    fv \<noteq> [] \<and> findVersion s projectId fv = None \<longrightarrow>
      (\<exists>s'. createBranch s newBranchId newVersionId now projectId userId name (Some fv) =
                 (Inl NotFoundException, s') \<and>
            branches s' = branches s @
                 [\<lparr>id_b = newBranchId, projectId_b = projectId, name_b = trim name,
                   isDefault_b = False, createdById_b = userId, createdAt_b = now\<rparr>] \<and>
            versions s' = versions s \<and> auditLogs s' = auditLogs s))"
  by (simp add: createBranch_def Let_def findVersion_branches)

theorem createBranch_unresolved_leaves_branch_witness:
  "trim w_nbsp = [] \<and>
   createBranch w_store0 ''b9'' ''v9'' 7 ''p1'' ''u1'' w_nbsp None = (Inl BadRequestException, w_store0) \<and>
   trim w_dev \<noteq> [] \<and> branchNameTaken w_store_dev ''p1'' (trim w_dev) \<and>
   createBranch w_store_dev ''b9'' ''v9'' 7 ''p1'' ''u1'' w_dev None =
     (Inl UniqueConstraintViolation, w_store_dev) \<and>
   \<not> branchNameTaken w_store0 ''p1'' (trim w_dev) \<and> ''ghost'' \<noteq> [] \<and>
   findVersion w_store0 ''p1'' ''ghost'' = None \<and>
   fst (createBranch w_store0 ''b9'' ''v9'' 7 ''p1'' ''u1'' w_dev (Some ''ghost'')) = Inl NotFoundException \<and>
   map id_b (branches (snd (createBranch w_store0 ''b9'' ''v9'' 7 ''p1'' ''u1'' w_dev (Some ''ghost'')))) = [''b9''] \<and>
   versions (snd (createBranch w_store0 ''b9'' ''v9'' 7 ''p1'' ''u1'' w_dev (Some ''ghost''))) = [] \<and>
   auditLogs (snd (createBranch w_store0 ''b9'' ''v9'' 7 ''p1'' ''u1'' w_dev (Some ''ghost''))) = []"
proof -
  have h0: "trim w_nbsp = []" and h1: "trim w_dev \<noteq> []"
    and d1: "branchNameTaken w_store_dev ''p1'' (trim w_dev)"
    and d0: "\<not> branchNameTaken w_store0 ''p1'' (trim w_dev)"
    and h3: "findVersion w_store0 ''p1'' ''ghost'' = None"
    by code_simp+
  from createBranch_unresolved_leaves_branch
      [of w_nbsp w_store0 "''b9''" "''v9''" 7 "''p1''" "''u1''" None "''ghost''"]
    createBranch_unresolved_leaves_branch
      [of w_dev w_store_dev "''b9''" "''v9''" 7 "''p1''" "''u1''" None "''ghost''"]
    createBranch_unresolved_leaves_branch
      [of w_dev w_store0 "''b9''" "''v9''" 7 "''p1''" "''u1''" "Some ''ghost''" "''ghost''"]
    h0 h1 d1 d0 h3
  show ?thesis by (auto simp: w_store0_def)
qed

section \<open>Diff of a document against itself\<close>

lemma filter_not_has_self: "filter (\<lambda>(k, v). \<not> map_has m k) m = []"
  by (auto simp: filter_empty_conv map_has_iff intro: rev_image_eqI)

lemma concat_map_Nil: "(\<And>x. x \<in> set xs \<Longrightarrow> f x = []) \<Longrightarrow> concat (map f xs) = []"
  by (induction xs) auto

lemma sameAttr_refl: "sameAttr a a"
  by (simp add: sameAttr_def)

lemma attrs_changed_self: "distinct (map fst m) \<Longrightarrow> attrs_changed m m = []"
  unfolding attrs_changed_def
  by (rule concat_map_Nil) (auto simp: map_get_distinct sameAttr_refl)

lemma entity_change_self: "entity_change name e e = []"
  by (simp add: entity_change_def Let_def attrs_removed_def attrs_added_def filter_not_has_self
      attrs_changed_self distinct_indexByName)

lemma diffEntities_self: "diffEntities a a = \<lparr>added_ed = [], removed_ed = [], changed_ed = []\<rparr>"
proof -
  have "concat (map (\<lambda>(name, eA). case map_get (indexByName name_ent a) name of
            None \<Rightarrow> [] | Some eB \<Rightarrow> entity_change name eA eB) (indexByName name_ent a)) = []"
    by (rule concat_map_Nil) (auto simp: map_get_distinct distinct_indexByName entity_change_self)
  then show ?thesis
    by (simp add: diffEntities_def Let_def filter_not_has_self)
qed

lemma diffRelations_self: "diffRelations a a = \<lparr>added_rd = [], removed_rd = [], changed_rd = []\<rparr>"
proof -
  have "concat (map (\<lambda>(k, rA). case map_get (indexByName keyRel a) k of
            None \<Rightarrow> []
          | Some rB \<Rightarrow> if relation_differs rA rB then [\<lparr>key_rc = k, from_rc = rA, to_rc = rB\<rparr>] else [])
        (indexByName keyRel a)) = []"
    by (rule concat_map_Nil) (auto simp: map_get_distinct distinct_indexByName relation_differs_def)
  then show ?thesis
    by (simp add: diffRelations_def Let_def filter_not_has_self)
qed

lemma diffReport_self: "entities a = entities b \<Longrightarrow> relations a = relations b \<Longrightarrow> diffReport a b = emptyReport"
  by (simp add: diffReport_def Let_def diffEntities_self diffRelations_self emptyReport_def)

text \<open>
  C5 as stated fails: \<open>diff\<close> with the same version on both sides does not return a
  report, it throws BadRequest, also for a version that resolves.
\<close>

theorem diff_same_version_counterexample:
  "getVersion w_store1 ''p1'' ''v1'' = Inr w_v1 \<and>
   diff w_store1 ''p1'' ''v1'' ''v1'' = (Inl BadRequestException, w_store1)"
  by (simp add: diff_def getVersion_def findVersion_def w_store1_def w_v1_def)

text \<open>
  C5, amended.  For every version \<open>a\<close>, \<open>diff\<close> of \<open>a\<close> against itself throws BadRequest
  and leaves the store as it was; for two distinct versions that resolve in the project
  and hold the same entities and relations, the report is empty in every category.
\<close>

theorem diff_same_version:
  "diff s projectId a a = (Inl BadRequestException, s) \<and>
   (a \<noteq> b \<and> getVersion s projectId a = Inr A \<and> getVersion s projectId b = Inr B \<and>
    entities (content_v A) = entities (content_v B) \<and> relations (content_v A) = relations (content_v B)
    \<longrightarrow> fst (diff s projectId a b) = Inr emptyReport)"
  by (simp add: diff_def diffReport_self)

theorem diff_same_version_witness:
  "diff w_store1 ''p1'' ''v1'' ''v1'' = (Inl BadRequestException, w_store1) \<and>
   ''v1'' \<noteq> ''v3'' \<and> getVersion w_store1 ''p1'' ''v1'' = Inr w_v1 \<and>
   getVersion w_store1 ''p1'' ''v3'' = Inr w_v3 \<and>
   entities (content_v w_v1) = entities (content_v w_v3) \<and>
   relations (content_v w_v1) = relations (content_v w_v3) \<and>
   fst (diff w_store1 ''p1'' ''v1'' ''v3'') = Inr emptyReport"
proof -
  have g1: "getVersion w_store1 ''p1'' ''v1'' = Inr w_v1"
    by (simp add: getVersion_def findVersion_def w_store1_def w_v1_def)
  have g3: "getVersion w_store1 ''p1'' ''v3'' = Inr w_v3"
    by (simp add: getVersion_def findVersion_def w_store1_def w_v1_def w_v2_def w_v3_def)
  have c: "entities (content_v w_v1) = entities (content_v w_v3) \<and>
           relations (content_v w_v1) = relations (content_v w_v3)"
    by (simp add: w_v1_def w_v3_def)
  from diff_same_version [of w_store1 "''p1''" "''v1''" "''v3''" w_v1 w_v3] g1 g3 c
  show ?thesis by simp
qed

section \<open>Restore onto the head of the branch\<close>

lemma latest_None: "latest xs = None \<longleftrightarrow> xs = []"
  by (cases xs) (auto split: option.splits if_splits)

lemma latest_Some: "latest xs = Some h \<Longrightarrow> h \<in> set xs \<and> (\<forall>w \<in> set xs. createdAt_v w \<le> createdAt_v h)"
proof (induction xs arbitrary: h)
  case Nil
  then show ?case by simp
next
  case (Cons a xs)
  show ?case
  proof (cases "latest xs")
    case None
    then have "xs = []" by (simp only: latest_None)
    with Cons.prems show ?thesis by simp
  next
    case (Some w)
    from Cons.IH [OF Some] have w: "w \<in> set xs" "\<forall>x \<in> set xs. createdAt_v x \<le> createdAt_v w"
      by auto
    show ?thesis
    proof (cases "createdAt_v a < createdAt_v w")
      case True
      with Some Cons.prems have "h = w" by simp
      with w True show ?thesis by auto
    next
      case False
      with Some Cons.prems have "h = a" by simp
      with w False show ?thesis by fastforce
    qed
  qed
qed

lemma getVersion_Inr: "getVersion s p vid = Inr v \<Longrightarrow> v \<in> set (versions s) \<and> id_v v = vid \<and> projectId_v v = p"
  by (auto simp: getVersion_def findVersion_def find_Some_iff split: option.splits)

text \<open>
  C7.  For every version \<open>v\<close> that resolves in the project, \<open>restore\<close> appends one
  version, on the branch of \<open>v\<close> and with the content of \<open>v\<close>, whose parent is a version
  of that branch with the greatest \<open>createdAt\<close>: the head of the branch, which need not
  be \<open>v\<close> (in the example after the theorem it is \<open>v2\<close> while \<open>v1\<close> is restored).
\<close>

theorem restore_on_head:
  assumes "getVersion s projectId versionId = Inr v"
  shows "\<exists>created s' h.
           restore s newVersionId now projectId userId versionId message = (Inr created, s') \<and>
           versions s' = versions s @ [created] \<and>
           branchId_v created = branchId_v v \<and> content_v created = content_v v \<and>
           parentVersionId_v created = Some (id_v h) \<and>
           h \<in> set (versions s) \<and> projectId_v h = projectId \<and> branchId_v h = branchId_v v \<and>
           (\<forall>w \<in> set (versions s). projectId_v w = projectId \<and> branchId_v w = branchId_v v
               \<longrightarrow> createdAt_v w \<le> createdAt_v h)"
proof -
  let ?xs = "filter (\<lambda>w. projectId_v w = projectId \<and> branchId_v w = branchId_v v) (versions s)"
  from getVersion_Inr [OF assms] have "v \<in> set ?xs" by simp
  then have "?xs \<noteq> []" by (metis empty_iff list.set(1))
  then have "latest ?xs \<noteq> None" by (simp only: latest_None not_False_eq_True)
  then obtain h where h: "latest ?xs = Some h" by auto
  from latest_Some [OF h] have hp: "h \<in> set ?xs" and hm: "\<forall>w \<in> set ?xs. createdAt_v w \<le> createdAt_v h"
    by auto
  have "restore s newVersionId now projectId userId versionId message =
          (Inr \<lparr>id_v = newVersionId, projectId_v = projectId, branchId_v = branchId_v v,
                parentVersionId_v = Some (id_v h), authorId_v = userId,
                message_v = Some (case message of None \<Rightarrow> lit ''restore: '' @ lit (take 7 (id_v v)) | Some m \<Rightarrow> m),
                content_v = content_v v, createdAt_v = now\<rparr>,
           snd (restore s newVersionId now projectId userId versionId message))"
    using assms h by (simp add: restore_def findHead_def Let_def)
  moreover have "versions (snd (restore s newVersionId now projectId userId versionId message)) =
          versions s @ [\<lparr>id_v = newVersionId, projectId_v = projectId, branchId_v = branchId_v v,
                parentVersionId_v = Some (id_v h), authorId_v = userId,
                message_v = Some (case message of None \<Rightarrow> lit ''restore: '' @ lit (take 7 (id_v v)) | Some m \<Rightarrow> m),
                content_v = content_v v, createdAt_v = now\<rparr>]"
    using assms h by (simp add: restore_def findHead_def Let_def)
  ultimately show ?thesis
    using hp hm by (intro exI [of _ h] exI conjI) (assumption | simp)+
qed

theorem restore_on_head_witness:
  "getVersion w_store1 ''p1'' ''v1'' = Inr w_v1 \<and>
   (\<exists>created s'. restore w_store1 ''v9'' 9 ''p1'' ''u1'' ''v1'' None = (Inr created, s') \<and>
      content_v created = w_docX \<and> branchId_v created = ''main'' \<and>
      parentVersionId_v created = Some ''v2'')"
proof -
  have g1: "getVersion w_store1 ''p1'' ''v1'' = Inr w_v1"
    by (simp add: getVersion_def findVersion_def w_store1_def w_v1_def)
  from restore_on_head [OF g1, of "''v9''" 9 "''u1''" None]
  obtain created s' h where
    r: "restore w_store1 ''v9'' 9 ''p1'' ''u1'' ''v1'' None = (Inr created, s')"
    and c: "content_v created = content_v w_v1" "branchId_v created = branchId_v w_v1"
    and p: "parentVersionId_v created = Some (id_v h)"
    and h: "h \<in> set (versions w_store1)" "projectId_v h = ''p1''" "branchId_v h = branchId_v w_v1"
    and m: "\<forall>w \<in> set (versions w_store1). projectId_v w = ''p1'' \<and> branchId_v w = branchId_v w_v1
               \<longrightarrow> createdAt_v w \<le> createdAt_v h"
    by blast
  from m have "createdAt_v w_v2 \<le> createdAt_v h"
    by (simp add: w_store1_def w_v1_def w_v2_def)
  with h have "h = w_v2"
    by (auto simp: w_store1_def w_v1_def w_v2_def w_v3_def)
  with r c p g1 show ?thesis by (simp add: w_v1_def w_v2_def)
qed

section \<open>The walks of the ancestor search\<close>

lemma getVersion_find: "getVersion s p vid = Inr v \<longleftrightarrow> findVersion s p vid = Some v"
  by (simp add: getVersion_def split: option.splits)

lemma getVersion_error: "getVersion s p vid = Inl e \<Longrightarrow> e = NotFoundException"
  by (simp add: getVersion_def split: option.splits)

lemma length_set_add: "length (set_add vis x) \<le> Suc (length vis)"
  by (simp add: set_add_def)

lemma traceLoop_length:
  "traceLoop s p n cur vis = Inr vis' \<Longrightarrow> length vis' \<le> length vis + n"
proof (induction n arbitrary: cur vis)
  case 0
  then show ?case by simp
next
  case (Suc n)
  have le: "length (set_add vis (id_v cur)) \<le> Suc (length vis)" by (rule length_set_add)
  show ?case
  proof (cases "parentVersionId_v cur")
    case None
    with Suc.prems le show ?thesis by auto
  next
    case (Some q)
    show ?thesis
    proof (cases "q = []")
      case True
      with Some Suc.prems le show ?thesis by auto
    next
      case False
      show ?thesis
      proof (cases "getVersion s p q")
        case (Inl e)
        with Some False Suc.prems show ?thesis by simp
      next
        case (Inr nxt)
        with Some False Suc.prems
        have "traceLoop s p n nxt (set_add vis (id_v cur)) = Inr vis'" by simp
        from Suc.IH [OF this] le show ?thesis by simp
      qed
    qed
  qed
qed

lemma traceLoop_visits:
  "traceLoop s p n cur vis = Inr vis' \<Longrightarrow>
     set vis' = set vis \<union> {id_v w |w k. k < n \<and> nthParent s p cur k = Some w}"
proof (induction n arbitrary: cur vis)
  case 0
  then show ?case by simp
next
  case (Suc n)
  let ?R = "\<lambda>c m. {id_v w |w k. k < m \<and> nthParent s p c k = Some w}"
  show ?case
  proof (cases "parentVersionId_v cur = None \<or> parentVersionId_v cur = Some []")
    case True
    then have stop: "\<And>k. nthParent s p cur (Suc k) = None" by auto
    have "?R cur (Suc n) = {id_v cur}"
    proof (rule set_eqI, rule iffI)
      fix x assume "x \<in> ?R cur (Suc n)"
      then obtain w k where x: "x = id_v w" "nthParent s p cur k = Some w" by blast
      then have "k = 0" using stop by (cases k) auto
      with x show "x \<in> {id_v cur}" by simp
    next
      fix x assume "x \<in> {id_v cur}"
      then have "x = id_v cur \<and> (0::nat) < Suc n \<and> nthParent s p cur 0 = Some cur" by simp
      then show "x \<in> ?R cur (Suc n)" by blast
    qed
    moreover from True Suc.prems have "vis' = set_add vis (id_v cur)" by auto
    ultimately show ?thesis by (simp add: set_set_add)
  next
    case False
    then obtain q where q: "parentVersionId_v cur = Some q" "q \<noteq> []" by auto
    show ?thesis
    proof (cases "getVersion s p q")
      case (Inl e)
      with q Suc.prems show ?thesis by simp
    next
      case (Inr nxt)
      with q Suc.prems
      have "traceLoop s p n nxt (set_add vis (id_v cur)) = Inr vis'" by simp
      from Suc.IH [OF this]
      have a: "set vis' = insert (id_v cur) (set vis) \<union> ?R nxt n" by (simp add: set_set_add)
      from Inr have f: "findVersion s p q = Some nxt" by (simp add: getVersion_find)
      have "?R cur (Suc n) = insert (id_v cur) (?R nxt n)"
      proof (rule set_eqI, rule iffI)
        fix x assume "x \<in> ?R cur (Suc n)"
        then obtain w k where x: "x = id_v w" "k < Suc n" "nthParent s p cur k = Some w" by blast
        show "x \<in> insert (id_v cur) (?R nxt n)"
        proof (cases k)
          case 0
          with x show ?thesis by simp
        next
          case (Suc j)
          with x q f have "j < n \<and> nthParent s p nxt j = Some w" by simp
          with x show ?thesis by blast
        qed
      next
        fix x assume "x \<in> insert (id_v cur) (?R nxt n)"
        then consider "x = id_v cur" | "x \<in> ?R nxt n" by blast
        then show "x \<in> ?R cur (Suc n)"
        proof cases
          case 1
          then have "x = id_v cur \<and> (0::nat) < Suc n \<and> nthParent s p cur 0 = Some cur" by simp
          then show ?thesis by blast
        next
          case 2
          then obtain w j where "x = id_v w" "j < n" "nthParent s p nxt j = Some w" by blast
          with q f have "x = id_v w \<and> Suc j < Suc n \<and> nthParent s p cur (Suc j) = Some w" by simp
          then show ?thesis by blast
        qed
      qed
      with a show ?thesis by auto
    qed
  qed
qed

lemma ancestorLoop_hit:
  "ancestorLoop s p n cur aAnc = Inr (Some h) \<Longrightarrow>
     \<exists>k<n. nthParent s p cur k = Some h \<and> id_v h \<in> set aAnc"
proof (induction n arbitrary: cur)
  case 0
  then show ?case by simp
next
  case (Suc n)
  show ?case
  proof (cases "id_v cur \<in> set aAnc")
    case True
    with Suc.prems have "h = cur" by simp
    with True have "(0::nat) < Suc n \<and> nthParent s p cur 0 = Some h \<and> id_v h \<in> set aAnc" by simp
    then show ?thesis by blast
  next
    case False
    with Suc.prems obtain q nxt where q: "parentVersionId_v cur = Some q" "q \<noteq> []"
      and g: "getVersion s p q = Inr nxt" and r: "ancestorLoop s p n nxt aAnc = Inr (Some h)"
      by (auto split: option.splits if_splits sum.splits)
    from Suc.IH [OF r] obtain k where k: "k < n" "nthParent s p nxt k = Some h" "id_v h \<in> set aAnc"
      by blast
    from g have "findVersion s p q = Some nxt" by (simp add: getVersion_find)
    with q k have "Suc k < Suc n \<and> nthParent s p cur (Suc k) = Some h \<and> id_v h \<in> set aAnc" by simp
    then show ?thesis by blast
  qed
qed

lemma ancestorLoop_no_hit:
  "\<forall>k<n. \<forall>w. nthParent s p cur k = Some w \<longrightarrow> id_v w \<notin> set aAnc \<Longrightarrow>
   ancestorLoop s p n cur aAnc = Inr r \<Longrightarrow> r = None"
  using ancestorLoop_hit [of s p n cur aAnc] by (cases r) auto

lemma walkResolves_step:
  "walkResolves s p cur (Suc n) \<Longrightarrow> parentVersionId_v cur = Some q \<Longrightarrow> q \<noteq> [] \<Longrightarrow>
   \<exists>w. getVersion s p q = Inr w \<and> walkResolves s p w n"
  by (auto simp: getVersion_def split: option.splits)

lemma traceLoop_no_error:
  "walkResolves s p cur n \<Longrightarrow> \<exists>vis'. traceLoop s p n cur vis = Inr vis'"
proof (induction n arbitrary: cur vis)
  case 0
  then show ?case by simp
next
  case (Suc n)
  show ?case
  proof (cases "parentVersionId_v cur = None \<or> parentVersionId_v cur = Some []")
    case True
    then show ?thesis by auto
  next
    case False
    then obtain q where q: "parentVersionId_v cur = Some q" "q \<noteq> []" by auto
    from walkResolves_step [OF Suc.prems q] obtain w
      where w: "getVersion s p q = Inr w" and r: "walkResolves s p w n" by blast
    from Suc.IH [OF r, of "set_add vis (id_v cur)"]
    obtain vis' where "traceLoop s p n w (set_add vis (id_v cur)) = Inr vis'" by blast
    with q w show ?thesis by simp
  qed
qed

lemma ancestorLoop_no_error:
  "walkResolves s p cur n \<Longrightarrow> \<exists>r. ancestorLoop s p n cur aAnc = Inr r"
proof (induction n arbitrary: cur)
  case 0
  then show ?case by simp
next
  case (Suc n)
  show ?case
  proof (cases "id_v cur \<in> set aAnc \<or> parentVersionId_v cur = None \<or> parentVersionId_v cur = Some []")
    case True
    then show ?thesis by auto
  next
    case False
    then obtain q where q: "parentVersionId_v cur = Some q" "q \<noteq> []" by auto
    from walkResolves_step [OF Suc.prems q] obtain w
      where w: "getVersion s p q = Inr w" and r: "walkResolves s p w n" by blast
    from Suc.IH [OF r]
    obtain r' where "ancestorLoop s p n w aAnc = Inr r'" by blast
    with q w False show ?thesis by simp
  qed
qed

lemma traceLoop_error: "traceLoop s p n cur vis = Inl e \<Longrightarrow> e = NotFoundException"
proof (induction n arbitrary: cur vis)
  case 0
  then show ?case by simp
next
  case (Suc n)
  then show ?case
    by (auto simp: Let_def split: option.splits if_splits sum.splits dest: getVersion_error)
qed

lemma ancestorLoop_error: "ancestorLoop s p n cur aAnc = Inl e \<Longrightarrow> e = NotFoundException"
proof (induction n arbitrary: cur)
  case 0
  then show ?case by simp
next
  case (Suc n)
  then show ?case
    by (auto split: option.splits if_splits sum.splits dest: getVersion_error)
qed

lemma w_chainId_inj: "w_chainId i = w_chainId j \<longleftrightarrow> i = j"
  by (auto simp: w_chainId_def dest: arg_cong [where f = length])

lemma find_map_upt:
  assumes "i < n" and "\<And>j. j < n \<Longrightarrow> P (f j) \<longleftrightarrow> j = i"
  shows "List.find P (map f [0..<n] @ ys) = Some (f i)"
proof -
  have "i < length (map f [0..<n] @ ys) \<and> P ((map f [0..<n] @ ys) ! i) \<and>
        f i = (map f [0..<n] @ ys) ! i \<and> (\<forall>j<i. \<not> P ((map f [0..<n] @ ys) ! j))"
    using assms by (auto simp: nth_append)
  then show ?thesis unfolding find_Some_iff by blast
qed

lemma w_chain_find:
  "i < 200 \<Longrightarrow> findVersion w_chain ''p1'' (w_chainId i) = Some (w_chainVersion i)"
proof -
  assume i: "i < 200"
  have "List.find (\<lambda>v. id_v v = w_chainId i \<and> projectId_v v = ''p1'')
          (map w_chainVersion [0..<200] @ [w_chainTop]) = Some (w_chainVersion i)"
    by (rule find_map_upt [OF i]) (simp add: w_chainVersion_def w_chainId_inj)
  then show ?thesis
    by (simp add: findVersion_def w_chain_def w_c3_def w_chainId_def)
qed

lemma w_chain_top: "findVersion w_chain ''p1'' (w_chainId 200) = None"
  by (auto simp: findVersion_def w_chain_def find_None_iff w_chainTop_def w_chainVersion_def
      w_chainId_inj w_c3_def w_chainId_def)

lemma w_chain_nthParent:
  "i + k < 200 \<Longrightarrow> nthParent w_chain ''p1'' (w_chainVersion i) k = Some (w_chainVersion (i + k))"
proof (induction k arbitrary: i)
  case 0
  then show ?case by simp
next
  case (Suc k)
  then have "Suc i < 200" and "Suc i + k < 200" by simp_all
  with Suc.IH [of "Suc i"] w_chain_find [of "Suc i"] show ?case
    by (simp add: w_chainVersion_def w_chainId_def)
qed

lemma w_chain_ancestorLoop:
  "i < 200 \<Longrightarrow> 200 \<le> i + n \<Longrightarrow>
   ancestorLoop w_chain ''p1'' n (w_chainVersion i) [''c3''] = Inl NotFoundException"
proof (induction n arbitrary: i)
  case 0
  then show ?case by simp
next
  case (Suc n)
  have nohit: "id_v (w_chainVersion i) \<notin> set [''c3'']"
    by (simp add: w_chainVersion_def w_chainId_def)
  have par: "parentVersionId_v (w_chainVersion i) = Some (w_chainId (Suc i))" "w_chainId (Suc i) \<noteq> []"
    by (simp_all add: w_chainVersion_def w_chainId_def)
  show ?case
  proof (cases "Suc i = 200")
    case True
    with w_chain_top have "getVersion w_chain ''p1'' (w_chainId (Suc i)) = Inl NotFoundException"
      by (simp add: getVersion_def)
    with nohit par show ?thesis by simp
  next
    case False
    with Suc.prems have lt: "Suc i < 200" and ge: "200 \<le> Suc i + n" by simp_all
    from w_chain_find [OF lt]
    have "getVersion w_chain ''p1'' (w_chainId (Suc i)) = Inr (w_chainVersion (Suc i))"
      by (simp add: getVersion_def)
    with nohit par Suc.IH [OF lt ge] show ?thesis by simp
  qed
qed

text \<open>
  C8 as stated fails.  The walk from the second version passes 200 versions that
  resolve, none of them visited by the first walk, and so uses up the cap; on its last
  turn it still fetches the parent of the 200th version, which lies in another project,
  and the search throws NotFound instead of returning "none".
\<close>

theorem findCommonAncestor_cap_counterexample:
  "traceParents w_chain ''p1'' ''c3'' 200 = Inr [''c3''] \<and>
   getVersion w_chain ''p1'' (w_chainId 0) = Inr (w_chainVersion 0) \<and>
   nthParent w_chain ''p1'' (w_chainVersion 0) 199 = Some (w_chainVersion 199) \<and>
   walkResolves w_chain ''p1'' (w_chainVersion 0) 199 \<and>
   parentVersionId_v (w_chainVersion 199) = Some (w_chainId 200) \<and>
   findVersion w_chain ''p1'' (w_chainId 200) = None \<and>
   findCommonAncestor w_chain ''p1'' ''c3'' (w_chainId 0) = Inl NotFoundException"
proof -
  have g3: "getVersion w_chain ''p1'' ''c3'' = Inr w_c3"
    by (simp add: getVersion_def findVersion_def w_chain_def w_c3_def)
  have tl: "traceLoop w_chain ''p1'' (Suc n) w_c3 [] = Inr [''c3'']" for n
    by (simp add: w_c3_def set_add_def)
  have "traceLoop w_chain ''p1'' 200 w_c3 [] = Inr [''c3'']"
    using tl [of 199] by simp
  with g3 have tr: "traceParents w_chain ''p1'' ''c3'' 200 = Inr [''c3'']"
    by (simp add: traceParents_def)
  have g0: "getVersion w_chain ''p1'' (w_chainId 0) = Inr (w_chainVersion 0)"
    using w_chain_find [of 0] by (simp add: getVersion_def)
  have np: "nthParent w_chain ''p1'' (w_chainVersion 0) 199 = Some (w_chainVersion 199)"
    using w_chain_nthParent [of 0 199] by simp
  have wr: "i + k < 200 \<Longrightarrow> walkResolves w_chain ''p1'' (w_chainVersion i) k" for i k
  proof (induction k arbitrary: i)
    case 0
    then show ?case by simp
  next
    case (Suc k)
    then have "Suc i < 200" and "Suc i + k < 200" by simp_all
    with Suc.IH [of "Suc i"] w_chain_find [of "Suc i"] show ?case
      by (simp add: w_chainVersion_def w_chainId_def)
  qed
  have al: "ancestorLoop w_chain ''p1'' 200 (w_chainVersion 0) [''c3''] = Inl NotFoundException"
    using w_chain_ancestorLoop [of 0 200] by simp
  have "findCommonAncestor w_chain ''p1'' ''c3'' (w_chainId 0) = Inl NotFoundException"
    using tr g0 al by (simp add: findCommonAncestor_def)
  with tr g0 np wr [of 0 199] w_chain_top show ?thesis
    by (simp add: w_chainVersion_def)
qed

text \<open>
  C8, amended.  The search for the common ancestor is two loops on a counter that starts
  at 200, so it returns on every store, cyclic parent links included.  The first walk
  collects at most 200 identifiers; a hit is a version at most 199 parent links above
  \<open>b\<close> whose identifier is at most 199 parent links above \<open>a\<close>.  When the two start
  versions and the parent links fetched on the two walks resolve in the project (up to
  200 links a walk, the one fetched on the last turn included; they may form a cycle),
  the search returns a result and not an error, which is "none" when the first 200
  versions above \<open>b\<close> meet none of the first 200 above \<open>a\<close>, whether the walks stop at
  the cap or at the end of a chain.  Otherwise the search may throw, and the only error
  it throws is the NotFound of \<open>getVersion\<close>.
\<close>

theorem findCommonAncestor_bounded:
  "(traceParents s p a 200 = Inr vis \<longrightarrow> length vis \<le> 200) \<and>
   (findCommonAncestor s p a b = Inr (Some h) \<longrightarrow>
      (\<exists>A B k m w. getVersion s p a = Inr A \<and> getVersion s p b = Inr B \<and> k < 200 \<and> m < 200 \<and>
         nthParent s p B k = Some h \<and> nthParent s p A m = Some w \<and> id_v w = id_v h)) \<and>
   (getVersion s p a = Inr A \<and> getVersion s p b = Inr B \<and>
    walkResolves s p A 200 \<and> walkResolves s p B 200 \<longrightarrow>
      (\<exists>r. findCommonAncestor s p a b = Inr r \<and>
         ((\<forall>k<200. \<forall>m<200. \<forall>h w. nthParent s p B k = Some h \<and> nthParent s p A m = Some w
              \<longrightarrow> id_v w \<noteq> id_v h) \<longrightarrow> r = None))) \<and>
   (findCommonAncestor s p a b = Inl e \<longrightarrow> e = NotFoundException)"
proof (intro conjI impI)
  assume "findCommonAncestor s p a b = Inl e"
  then show "e = NotFoundException"
    by (auto simp: findCommonAncestor_def traceParents_def split: sum.splits
        dest: getVersion_error traceLoop_error ancestorLoop_error)
next
  assume "traceParents s p a 200 = Inr vis"
  then obtain A where "traceLoop s p 200 A [] = Inr vis"
    by (auto simp: traceParents_def split: sum.splits)
  from traceLoop_length [OF this] show "length vis \<le> 200" by simp
next
  assume "findCommonAncestor s p a b = Inr (Some h)"
  then obtain A B vis where A: "getVersion s p a = Inr A" and B: "getVersion s p b = Inr B"
    and t: "traceLoop s p 200 A [] = Inr vis" and l: "ancestorLoop s p 200 B vis = Inr (Some h)"
    by (auto simp: findCommonAncestor_def traceParents_def split: sum.splits)
  from ancestorLoop_hit [OF l] obtain k where k: "k < 200" "nthParent s p B k = Some h" "id_v h \<in> set vis"
    by blast
  from traceLoop_visits [OF t] k(3) obtain w m where "id_v h = id_v w" "m < 200" "nthParent s p A m = Some w"
    by auto
  with A B k show "\<exists>A B k m w. getVersion s p a = Inr A \<and> getVersion s p b = Inr B \<and> k < 200 \<and> m < 200 \<and>
         nthParent s p B k = Some h \<and> nthParent s p A m = Some w \<and> id_v w = id_v h"
    by (metis (no_types))
next
  assume h: "getVersion s p a = Inr A \<and> getVersion s p b = Inr B \<and>
    walkResolves s p A 200 \<and> walkResolves s p B 200"
  then have A: "getVersion s p a = Inr A" and B: "getVersion s p b = Inr B"
    and wa: "walkResolves s p A 200" and wb: "walkResolves s p B 200"
    by auto
  from traceLoop_no_error [OF wa, of "[]"]
  obtain vis where t: "traceLoop s p 200 A [] = Inr vis" by blast
  from ancestorLoop_no_error [OF wb, of vis]
  obtain r where l: "ancestorLoop s p 200 B vis = Inr r" by blast
  from A B t l have res: "findCommonAncestor s p a b = Inr r"
    by (simp add: findCommonAncestor_def traceParents_def)
  have "r = None"
    if nh: "\<forall>k<200. \<forall>m<200. \<forall>h w. nthParent s p B k = Some h \<and> nthParent s p A m = Some w
              \<longrightarrow> id_v w \<noteq> id_v h"
  proof (rule ancestorLoop_no_hit [OF _ l], intro allI impI)
    fix k w assume k: "k < 200" and w: "nthParent s p B k = Some w"
    show "id_v w \<notin> set vis"
    proof
      assume "id_v w \<in> set vis"
      with traceLoop_visits [OF t] obtain w' m where "id_v w = id_v w'" "m < 200" "nthParent s p A m = Some w'"
        by auto
      with nh k w show False by metis
    qed
  qed
  with res show "\<exists>r. findCommonAncestor s p a b = Inr r \<and>
         ((\<forall>k<200. \<forall>m<200. \<forall>h w. nthParent s p B k = Some h \<and> nthParent s p A m = Some w
              \<longrightarrow> id_v w \<noteq> id_v h) \<longrightarrow> r = None)"
    by blast
qed

lemma w_cyclic_chain:
  "v \<in> {w_c1, w_c2} \<Longrightarrow> nthParent w_cyclic ''p1'' v k = Some w \<Longrightarrow> w \<in> {w_c1, w_c2}"
proof (induction k arbitrary: v)
  case 0
  then show ?case by auto
next
  case (Suc k)
  have f1: "findVersion w_cyclic ''p1'' ''c1'' = Some w_c1"
    by (simp add: findVersion_def w_cyclic_def w_c1_def)
  have f2: "findVersion w_cyclic ''p1'' ''c2'' = Some w_c2"
    by (simp add: findVersion_def w_cyclic_def w_c1_def w_c2_def)
  from Suc.prems(1) consider "v = w_c1" | "v = w_c2" by auto
  then show ?case
  proof cases
    case 1
    with Suc.prems(2) f2 have "nthParent w_cyclic ''p1'' w_c2 k = Some w" by (simp add: w_c1_def)
    from Suc.IH [OF _ this] show ?thesis by simp
  next
    case 2
    with Suc.prems(2) f1 have "nthParent w_cyclic ''p1'' w_c1 k = Some w" by (simp add: w_c2_def)
    from Suc.IH [OF _ this] show ?thesis by simp
  qed
qed

lemma w_cyclic_single: "nthParent w_cyclic ''p1'' w_c3 m = Some w \<Longrightarrow> w = w_c3"
  by (cases m) (auto simp: w_c3_def)

theorem findCommonAncestor_bounded_witness:
  "getVersion w_cyclic ''p1'' ''c3'' = Inr w_c3 \<and> getVersion w_cyclic ''p1'' ''c1'' = Inr w_c1 \<and>
   walkResolves w_cyclic ''p1'' w_c3 200 \<and> walkResolves w_cyclic ''p1'' w_c1 200 \<and>
   traceParents w_cyclic ''p1'' ''c1'' 200 = Inr [''c1'', ''c2''] \<and>
   findCommonAncestor w_cyclic ''p1'' ''c3'' ''c1'' = Inr None \<and>
   findCommonAncestor w_store1 ''p1'' ''v2'' ''v3'' = Inr (Some w_v1) \<and>
   (\<exists>k<200. nthParent w_store1 ''p1'' w_v3 k = Some w_v1)"
proof -
  have f1: "findVersion w_cyclic ''p1'' ''c1'' = Some w_c1"
    by (simp add: findVersion_def w_cyclic_def w_c1_def)
  have f2: "findVersion w_cyclic ''p1'' ''c2'' = Some w_c2"
    by (simp add: findVersion_def w_cyclic_def w_c1_def w_c2_def)
  have f3: "findVersion w_cyclic ''p1'' ''c3'' = Some w_c3"
    by (simp add: findVersion_def w_cyclic_def w_c1_def w_c2_def w_c3_def)
  have lr: "walkResolves w_cyclic ''p1'' w_c3 200" "walkResolves w_cyclic ''p1'' w_c1 200"
    by code_simp+
  have g3: "getVersion w_cyclic ''p1'' ''c3'' = Inr w_c3" and g1: "getVersion w_cyclic ''p1'' ''c1'' = Inr w_c1"
    using f1 f3 by (simp_all add: getVersion_def)
  have nh: "\<forall>k<200. \<forall>m<200. \<forall>h w. nthParent w_cyclic ''p1'' w_c1 k = Some h \<and>
               nthParent w_cyclic ''p1'' w_c3 m = Some w \<longrightarrow> id_v w \<noteq> id_v h"
  proof (intro allI impI)
    fix k m h w
    assume "nthParent w_cyclic ''p1'' w_c1 k = Some h \<and> nthParent w_cyclic ''p1'' w_c3 m = Some w"
    then have "h \<in> {w_c1, w_c2}" and "w = w_c3"
      using w_cyclic_chain [of w_c1 k h] w_cyclic_single [of m w] by auto
    then show "id_v w \<noteq> id_v h" by (auto simp: w_c1_def w_c2_def w_c3_def)
  qed
  have none: "findCommonAncestor w_cyclic ''p1'' ''c3'' ''c1'' = Inr None"
    using findCommonAncestor_bounded [of w_cyclic "''p1''" "''c3''" "[]" "''c1''" w_c1 w_c3 w_c1] lr g3 g1 nh
    by auto
  have tr: "traceParents w_cyclic ''p1'' ''c1'' 200 = Inr [''c1'', ''c2'']"
    by code_simp
  have hit: "findCommonAncestor w_store1 ''p1'' ''v2'' ''v3'' = Inr (Some w_v1)"
    by code_simp
  have gv3: "getVersion w_store1 ''p1'' ''v3'' = Inr w_v3"
    by (simp add: getVersion_def findVersion_def w_store1_def w_v1_def w_v2_def w_v3_def)
  from findCommonAncestor_bounded [of w_store1 "''p1''" "''v2''" "[]" "''v3''" w_v1 w_v1] hit gv3
  have "\<exists>k<200. nthParent w_store1 ''p1'' w_v3 k = Some w_v1"
    by auto
  with lr g3 g1 none tr hit show ?thesis by simp
qed

text \<open>
  A parent link that leaves the project does not resolve: the walk from \<open>d1\<close> is
  rejected by \<open>getVersion\<close>, which is neither the cap nor the end of a chain.
\<close>

lemma findCommonAncestor_foreign_parent:
  "\<not> walkResolves w_foreign ''p1'' w_d1 200 \<and>
   findCommonAncestor w_foreign ''p1'' ''c3'' ''d1'' = Inl NotFoundException"
  by code_simp

section \<open>The writes of a merge\<close>

text \<open>
  C3 as stated fails: when the insert of the result version is rejected, the merge
  record inserted before it stays in the store, with no result version and no audit
  record.
\<close>

theorem merge_not_atomic_counterexample:
  "fst (merge w_store1 ''m9'' ''v9'' 9 (Some 1) ''p1'' ''u1'' w_params) = Inl WriteFailed \<and>
   map id_m (merges (snd (merge w_store1 ''m9'' ''v9'' 9 (Some 1) ''p1'' ''u1'' w_params))) = [''m9''] \<and>
   map resultVersionId_m (merges (snd (merge w_store1 ''m9'' ''v9'' 9 (Some 1) ''p1'' ''u1'' w_params))) = [None] \<and>
   map id_v (versions (snd (merge w_store1 ''m9'' ''v9'' 9 (Some 1) ''p1'' ''u1'' w_params))) = [''v1'', ''v2'', ''v3''] \<and>
   auditLogs (snd (merge w_store1 ''m9'' ''v9'' 9 (Some 1) ''p1'' ''u1'' w_params)) = []"
  by code_simp

text \<open>
  C3, amended.  The commit of a merge is four separate writes, in this order: the insert
  of the merge record (without a result version), the insert of the result version, the
  update that sets the result version of the merge record, the insert of the audit
  record.  When none is rejected, all are applied and the merge record references the
  version that was created; when one is rejected, the writes before it persist.
\<close>

theorem merge_writes_in_sequence:
  assumes "getVersion s projectId (sourceVersionId params) = Inr src"
    and "getVersion s projectId (targetVersionId params) = Inr dst"
    and "branchId_v src = sourceBranchId params" and "branchId_v dst = targetBranchId params"
    and "findCommonAncestor s projectId (sourceVersionId params) (targetVersionId params) = Inr ancestor"
    and "merge s newMergeId newVersionId now failing projectId userId params = (out, s')"
  shows "(failing = Some 0 \<longrightarrow> out = Inl WriteFailed \<and> s' = s) \<and>
         (failing = Some 1 \<longrightarrow> out = Inl WriteFailed \<and>
            map id_m (merges s') = map id_m (merges s) @ [newMergeId] \<and>
            map resultVersionId_m (merges s') = map resultVersionId_m (merges s) @ [None] \<and>
            versions s' = versions s \<and> auditLogs s' = auditLogs s) \<and>
         (failing = Some 2 \<longrightarrow> out = Inl WriteFailed \<and>
            map id_m (merges s') = map id_m (merges s) @ [newMergeId] \<and>
            map resultVersionId_m (merges s') = map resultVersionId_m (merges s) @ [None] \<and>
            map id_v (versions s') = map id_v (versions s) @ [newVersionId] \<and>
            auditLogs s' = auditLogs s) \<and>
         (failing = Some 3 \<longrightarrow> out = Inl WriteFailed \<and>
            map id_m (merges s') = map id_m (merges s) @ [newMergeId] \<and>
            resultVersionId_m (last (merges s')) = Some newVersionId \<and>
            map id_v (versions s') = map id_v (versions s) @ [newVersionId] \<and>
            auditLogs s' = auditLogs s) \<and>
         (failing = None \<longrightarrow>
            (\<exists>reply. out = Inr reply \<and> mergeId reply = newMergeId \<and> resultVersionId reply = newVersionId) \<and>
            map id_m (merges s') = map id_m (merges s) @ [newMergeId] \<and>
            resultVersionId_m (last (merges s')) = Some newVersionId \<and>
            map id_v (versions s') = map id_v (versions s) @ [newVersionId] \<and>
            map targetId_a (auditLogs s') = map targetId_a (auditLogs s) @ [newMergeId])"
proof -
  have m: "map id_m (map (\<lambda>m. if id_m m = k then m\<lparr>resultVersionId_m := r\<rparr> else m) ms) = map id_m ms" for k r ms
    by (induction ms) auto
  have c0: "failing = Some 0 \<longrightarrow> out = Inl WriteFailed \<and> s' = s"
    using assms by (auto simp: merge_def Let_def)
  have c1: "failing = Some 1 \<longrightarrow> out = Inl WriteFailed \<and>
            map id_m (merges s') = map id_m (merges s) @ [newMergeId] \<and>
            map resultVersionId_m (merges s') = map resultVersionId_m (merges s) @ [None] \<and>
            versions s' = versions s \<and> auditLogs s' = auditLogs s"
    using assms by (auto simp: merge_def Let_def)
  have c2: "failing = Some 2 \<longrightarrow> out = Inl WriteFailed \<and>
            map id_m (merges s') = map id_m (merges s) @ [newMergeId] \<and>
            map resultVersionId_m (merges s') = map resultVersionId_m (merges s) @ [None] \<and>
            map id_v (versions s') = map id_v (versions s) @ [newVersionId] \<and>
            auditLogs s' = auditLogs s"
    using assms by (auto simp: merge_def Let_def)
  have c3: "failing = Some 3 \<longrightarrow> out = Inl WriteFailed \<and>
            map id_m (merges s') = map id_m (merges s) @ [newMergeId] \<and>
            resultVersionId_m (last (merges s')) = Some newVersionId \<and>
            map id_v (versions s') = map id_v (versions s) @ [newVersionId] \<and>
            auditLogs s' = auditLogs s"
    using assms by (auto simp: merge_def Let_def m)
  have c4: "failing = None \<longrightarrow>
            (\<exists>reply. out = Inr reply \<and> mergeId reply = newMergeId \<and> resultVersionId reply = newVersionId) \<and>
            map id_m (merges s') = map id_m (merges s) @ [newMergeId] \<and>
            resultVersionId_m (last (merges s')) = Some newVersionId \<and>
            map id_v (versions s') = map id_v (versions s) @ [newVersionId] \<and>
            map targetId_a (auditLogs s') = map targetId_a (auditLogs s) @ [newMergeId]"
    using assms by (auto simp: merge_def Let_def m)
  from c0 c1 c2 c3 c4 show ?thesis by (intro conjI)
qed

theorem merge_writes_in_sequence_witness:
  "getVersion w_store1 ''p1'' (sourceVersionId w_params) = Inr w_v3 \<and>
   getVersion w_store1 ''p1'' (targetVersionId w_params) = Inr w_v2 \<and>
   branchId_v w_v3 = sourceBranchId w_params \<and> branchId_v w_v2 = targetBranchId w_params \<and>
   findCommonAncestor w_store1 ''p1'' (sourceVersionId w_params) (targetVersionId w_params) = Inr (Some w_v1) \<and>
   versions (snd (merge w_store1 ''m9'' ''v9'' 9 (Some 1) ''p1'' ''u1'' w_params)) = versions w_store1 \<and>
   map id_m (merges (snd (merge w_store1 ''m9'' ''v9'' 9 (Some 1) ''p1'' ''u1'' w_params))) = [''m9''] \<and>
   map id_v (versions (snd (merge w_store1 ''m9'' ''v9'' 9 None ''p1'' ''u1'' w_params))) =
     [''v1'', ''v2'', ''v3'', ''v9''] \<and>
   resultVersionId_m (last (merges (snd (merge w_store1 ''m9'' ''v9'' 9 None ''p1'' ''u1'' w_params)))) =
     Some ''v9''"
proof -
  have g3: "getVersion w_store1 ''p1'' (sourceVersionId w_params) = Inr w_v3"
    by (simp add: getVersion_def findVersion_def w_store1_def w_v1_def w_v2_def w_v3_def w_params_def)
  have g2: "getVersion w_store1 ''p1'' (targetVersionId w_params) = Inr w_v2"
    by (simp add: getVersion_def findVersion_def w_store1_def w_v1_def w_v2_def w_params_def)
  have b3: "branchId_v w_v3 = sourceBranchId w_params" and b2: "branchId_v w_v2 = targetBranchId w_params"
    by (simp_all add: w_v3_def w_v2_def w_params_def)
  have anc: "findCommonAncestor w_store1 ''p1'' (sourceVersionId w_params) (targetVersionId w_params) =
      Inr (Some w_v1)"
    by code_simp
  note t = merge_writes_in_sequence [OF g3 g2 b3 b2 anc surjective_pairing]
  have ids: "map id_m (merges w_store1) = []" "map id_v (versions w_store1) = [''v1'', ''v2'', ''v3'']"
    by (simp_all add: w_store1_def w_v1_def w_v2_def w_v3_def)
  from t [where newMergeId = "''m9''" and newVersionId = "''v9''" and now = 9 and failing = "Some 1"
           and userId = "''u1''"]
    t [where newMergeId = "''m9''" and newVersionId = "''v9''" and now = 9 and failing = None
           and userId = "''u1''"] g3 g2 b3 b2 anc ids
  show ?thesis by simp
qed

section \<open>Antisymmetry of the diff\<close>

lemma set_concat_map_of:
  assumes "distinct (map fst m)"
  shows "set (concat (map (\<lambda>(k, v). f k v) m)) = {x. \<exists>k v. map_of m k = Some v \<and> x \<in> set (f k v)}"
  using assms by (auto simp: map_of_eq_Some_iff) 

lemma sameAttr_sym: "sameAttr a b \<longleftrightarrow> sameAttr b a"
  by (auto simp: sameAttr_def)

lemma relation_differs_sym: "relation_differs a b \<longleftrightarrow> relation_differs b a"
  by (auto simp: relation_differs_def)

lemma attrs_changed_mem:
  assumes "distinct (map fst X)"
  shows "c \<in> set (attrs_changed X Y) \<longleftrightarrow>
     (\<exists>an x y. c = \<lparr>name_ac = an, from_ac = x, to_ac = y\<rparr> \<and>
        map_of X an = Some x \<and> map_of Y an = Some y \<and> \<not> sameAttr x y)"
proof -
  have "set (attrs_changed X Y) = {c. \<exists>k v. map_of X k = Some v \<and>
      c \<in> set (case map_get Y k of None \<Rightarrow> []
                | Some atB \<Rightarrow> if \<not> sameAttr v atB then [\<lparr>name_ac = k, from_ac = v, to_ac = atB\<rparr>] else [])}"
    unfolding attrs_changed_def by (rule set_concat_map_of [OF assms])
  then show ?thesis
    by (auto simp: map_get_def split: option.splits if_splits)
qed

lemma attrs_changed_mirror:
  assumes "distinct (map fst X)" and "distinct (map fst Y)"
  shows "mirror_ac ` set (attrs_changed X Y) = set (attrs_changed Y X)"
proof (rule set_eqI, rule iffI)
  fix c assume "c \<in> mirror_ac ` set (attrs_changed X Y)"
  then obtain d where d: "d \<in> set (attrs_changed X Y)" and c: "c = mirror_ac d" by blast
  from d obtain an x y where "d = \<lparr>name_ac = an, from_ac = x, to_ac = y\<rparr>"
    "map_of X an = Some x" "map_of Y an = Some y" "\<not> sameAttr x y"
    unfolding attrs_changed_mem [OF assms(1)] by blast
  with c have "c = \<lparr>name_ac = an, from_ac = y, to_ac = x\<rparr> \<and>
        map_of Y an = Some y \<and> map_of X an = Some x \<and> \<not> sameAttr y x"
    using sameAttr_sym [of x y] by (simp add: mirror_ac_def)
  then show "c \<in> set (attrs_changed Y X)"
    unfolding attrs_changed_mem [OF assms(2)] by blast
next
  fix c assume "c \<in> set (attrs_changed Y X)"
  then obtain an y x where c: "c = \<lparr>name_ac = an, from_ac = y, to_ac = x\<rparr>"
    and m: "map_of Y an = Some y" "map_of X an = Some x" and n: "\<not> sameAttr y x"
    unfolding attrs_changed_mem [OF assms(2)] by blast
  let ?d = "\<lparr>name_ac = an, from_ac = x, to_ac = y\<rparr>"
  from n have "\<not> sameAttr x y" using sameAttr_sym [of x y] by simp
  with m have "?d \<in> set (attrs_changed X Y)"
    unfolding attrs_changed_mem [OF assms(1)] by blast
  moreover from c have "c = mirror_ac ?d" by (simp add: mirror_ac_def)
  ultimately show "c \<in> mirror_ac ` set (attrs_changed X Y)" by blast
qed

lemma attrs_added_removed: "attrs_added X Y = attrs_removed Y X"
  by (simp add: attrs_added_def attrs_removed_def)

lemma entity_change_mirror:
  "ec_view ` mirror_ec ` set (entity_change n eA eB) = ec_view ` set (entity_change n eB eA)"
proof -
  let ?X = "indexByName name_attr (attrs_ent eA)" and ?Y = "indexByName name_attr (attrs_ent eB)"
  have m: "mirror_ac ` set (attrs_changed ?X ?Y) = set (attrs_changed ?Y ?X)"
    by (rule attrs_changed_mirror) (rule distinct_indexByName)+
  then have e: "attrs_changed ?X ?Y = [] \<longleftrightarrow> attrs_changed ?Y ?X = []"
    by (metis image_is_empty set_empty)
  have c: "(stereotype_ent eA \<noteq> stereotype_ent eB \<or> attrs_added ?X ?Y \<noteq> [] \<or>
            attrs_removed ?X ?Y \<noteq> [] \<or> attrs_changed ?X ?Y \<noteq> []) \<longleftrightarrow>
           (stereotype_ent eB \<noteq> stereotype_ent eA \<or> attrs_added ?Y ?X \<noteq> [] \<or>
            attrs_removed ?Y ?X \<noteq> [] \<or> attrs_changed ?Y ?X \<noteq> [])"
    using e by (auto simp: attrs_added_removed)
  show ?thesis
  proof (cases "stereotype_ent eA \<noteq> stereotype_ent eB \<or> attrs_added ?X ?Y \<noteq> [] \<or>
            attrs_removed ?X ?Y \<noteq> [] \<or> attrs_changed ?X ?Y \<noteq> []")
    case True
    with c have T': "stereotype_ent eB \<noteq> stereotype_ent eA \<or> attrs_added ?Y ?X \<noteq> [] \<or>
            attrs_removed ?Y ?X \<noteq> [] \<or> attrs_changed ?Y ?X \<noteq> []" by simp
    have l: "entity_change n eA eB =
       [\<lparr>name_ec = n, stereotype_from = stereotype_ent eA, stereotype_to = stereotype_ent eB,
         attrAdded = attrs_added ?X ?Y, attrRemoved = attrs_removed ?X ?Y,
         attrChanged = attrs_changed ?X ?Y\<rparr>]"
      using True by (simp add: entity_change_def Let_def)
    have r: "entity_change n eB eA =
       [\<lparr>name_ec = n, stereotype_from = stereotype_ent eB, stereotype_to = stereotype_ent eA,
         attrAdded = attrs_added ?Y ?X, attrRemoved = attrs_removed ?Y ?X,
         attrChanged = attrs_changed ?Y ?X\<rparr>]"
      using T' by (simp add: entity_change_def Let_def)
    show ?thesis
      unfolding l r using m by (simp add: ec_view_def mirror_ec_def attrs_added_removed)
  next
    case False
    with c have F': "\<not> (stereotype_ent eB \<noteq> stereotype_ent eA \<or> attrs_added ?Y ?X \<noteq> [] \<or>
            attrs_removed ?Y ?X \<noteq> [] \<or> attrs_changed ?Y ?X \<noteq> [])" by simp
    have "entity_change n eA eB = []" using False by (simp add: entity_change_def Let_def)
    moreover have "entity_change n eB eA = []" using F' by (simp add: entity_change_def Let_def)
    ultimately show ?thesis by simp
  qed
qed

lemma changed_ed_set:
  "set (changed_ed (diffEntities a b)) =
     {c. \<exists>n eA eB. map_of (indexByName name_ent a) n = Some eA \<and>
            map_of (indexByName name_ent b) n = Some eB \<and> c \<in> set (entity_change n eA eB)}"
proof -
  have "changed_ed (diffEntities a b) =
      concat (map (\<lambda>(k, v). case map_get (indexByName name_ent b) k of
                               None \<Rightarrow> [] | Some eB \<Rightarrow> entity_change k v eB)
           (indexByName name_ent a))"
    by (simp add: diffEntities_def Let_def)
  then have "set (changed_ed (diffEntities a b)) =
     {x. \<exists>k v. map_of (indexByName name_ent a) k = Some v \<and>
        x \<in> set (case map_get (indexByName name_ent b) k of None \<Rightarrow> [] | Some eB \<Rightarrow> entity_change k v eB)}"
    by (simp only: set_concat_map_of [OF distinct_indexByName])
  also have "\<dots> = {c. \<exists>n eA eB. map_of (indexByName name_ent a) n = Some eA \<and>
            map_of (indexByName name_ent b) n = Some eB \<and> c \<in> set (entity_change n eA eB)}"
  proof (rule set_eqI, rule iffI)
    fix x
    assume "x \<in> {x. \<exists>k v. map_of (indexByName name_ent a) k = Some v \<and>
        x \<in> set (case map_get (indexByName name_ent b) k of None \<Rightarrow> [] | Some eB \<Rightarrow> entity_change k v eB)}"
    then obtain k v where kv: "map_of (indexByName name_ent a) k = Some v"
      and x: "x \<in> set (case map_get (indexByName name_ent b) k of None \<Rightarrow> [] | Some eB \<Rightarrow> entity_change k v eB)"
      by blast
    from x obtain eB where "map_of (indexByName name_ent b) k = Some eB" "x \<in> set (entity_change k v eB)"
      by (cases "map_of (indexByName name_ent b) k") (simp_all add: map_get_def)
    with kv show "x \<in> {c. \<exists>n eA eB. map_of (indexByName name_ent a) n = Some eA \<and>
            map_of (indexByName name_ent b) n = Some eB \<and> c \<in> set (entity_change n eA eB)}"
      by blast
  next
    fix x
    assume "x \<in> {c. \<exists>n eA eB. map_of (indexByName name_ent a) n = Some eA \<and>
            map_of (indexByName name_ent b) n = Some eB \<and> c \<in> set (entity_change n eA eB)}"
    then obtain n eA eB where "map_of (indexByName name_ent a) n = Some eA"
      "map_of (indexByName name_ent b) n = Some eB" "x \<in> set (entity_change n eA eB)"
      by blast
    then have "map_of (indexByName name_ent a) n = Some eA \<and>
        x \<in> set (case map_get (indexByName name_ent b) n of None \<Rightarrow> [] | Some eB \<Rightarrow> entity_change n eA eB)"
      by (simp add: map_get_def)
    then show "x \<in> {x. \<exists>k v. map_of (indexByName name_ent a) k = Some v \<and>
        x \<in> set (case map_get (indexByName name_ent b) k of None \<Rightarrow> [] | Some eB \<Rightarrow> entity_change k v eB)}"
      by blast
  qed
  finally show ?thesis .
qed

lemma changed_ed_mirror_subset:
  "ec_view ` mirror_ec ` set (changed_ed (diffEntities a b)) \<subseteq> ec_view ` set (changed_ed (diffEntities b a))"
proof
  fix x assume "x \<in> ec_view ` mirror_ec ` set (changed_ed (diffEntities a b))"
  then obtain c where c: "c \<in> set (changed_ed (diffEntities a b))" and x: "x = ec_view (mirror_ec c)"
    by blast
  from c obtain n eA eB where A: "map_of (indexByName name_ent a) n = Some eA"
    and B: "map_of (indexByName name_ent b) n = Some eB" and m: "c \<in> set (entity_change n eA eB)"
    unfolding changed_ed_set by blast
  from m x have "x \<in> ec_view ` mirror_ec ` set (entity_change n eA eB)" by blast
  then have "x \<in> ec_view ` set (entity_change n eB eA)" by (simp only: entity_change_mirror)
  then obtain c' where c': "c' \<in> set (entity_change n eB eA)" and x': "x = ec_view c'" by blast
  from c' A B have "c' \<in> set (changed_ed (diffEntities b a))" unfolding changed_ed_set by blast
  with x' show "x \<in> ec_view ` set (changed_ed (diffEntities b a))" by blast
qed

lemma changed_ed_mirror_supset:
  "ec_view ` set (changed_ed (diffEntities b a)) \<subseteq> ec_view ` mirror_ec ` set (changed_ed (diffEntities a b))"
proof
  fix x assume "x \<in> ec_view ` set (changed_ed (diffEntities b a))"
  then obtain c where c: "c \<in> set (changed_ed (diffEntities b a))" and x: "x = ec_view c"
    by blast
  from c obtain n eA eB where B: "map_of (indexByName name_ent b) n = Some eB"
    and A: "map_of (indexByName name_ent a) n = Some eA" and m: "c \<in> set (entity_change n eB eA)"
    unfolding changed_ed_set by blast
  from m x have "x \<in> ec_view ` set (entity_change n eB eA)" by blast
  then have "x \<in> ec_view ` mirror_ec ` set (entity_change n eA eB)" by (simp only: entity_change_mirror)
  then obtain c' where c': "c' \<in> set (entity_change n eA eB)" and x': "x = ec_view (mirror_ec c')" by blast
  from c' A B have "c' \<in> set (changed_ed (diffEntities a b))" unfolding changed_ed_set by blast
  with x' show "x \<in> ec_view ` mirror_ec ` set (changed_ed (diffEntities a b))" by blast
qed

lemma changed_rd_mem:
  "c \<in> set (changed_rd (diffRelations a b)) \<longleftrightarrow>
     (\<exists>k rA rB. c = \<lparr>key_rc = k, from_rc = rA, to_rc = rB\<rparr> \<and>
        map_of (indexByName keyRel a) k = Some rA \<and> map_of (indexByName keyRel b) k = Some rB \<and>
        relation_differs rA rB)"
proof -
  have "changed_rd (diffRelations a b) =
      concat (map (\<lambda>(k, v). case map_get (indexByName keyRel b) k of
                 None \<Rightarrow> []
               | Some rB \<Rightarrow> if relation_differs v rB then [\<lparr>key_rc = k, from_rc = v, to_rc = rB\<rparr>] else [])
           (indexByName keyRel a))"
    by (simp add: diffRelations_def Let_def)
  then have "set (changed_rd (diffRelations a b)) =
     {x. \<exists>k v. map_of (indexByName keyRel a) k = Some v \<and>
        x \<in> set (case map_get (indexByName keyRel b) k of None \<Rightarrow> []
                  | Some rB \<Rightarrow> if relation_differs v rB then [\<lparr>key_rc = k, from_rc = v, to_rc = rB\<rparr>] else [])}"
    by (simp only: set_concat_map_of [OF distinct_indexByName])
  then show ?thesis
    by (auto simp: map_get_def split: option.splits if_splits)
qed

lemma changed_rd_mirror:
  "mirror_rc ` set (changed_rd (diffRelations a b)) = set (changed_rd (diffRelations b a))"
proof (rule set_eqI, rule iffI)
  fix c assume "c \<in> mirror_rc ` set (changed_rd (diffRelations a b))"
  then obtain d where d: "d \<in> set (changed_rd (diffRelations a b))" and c: "c = mirror_rc d" by blast
  from d obtain k rA rB where "d = \<lparr>key_rc = k, from_rc = rA, to_rc = rB\<rparr>"
    "map_of (indexByName keyRel a) k = Some rA" "map_of (indexByName keyRel b) k = Some rB"
    "relation_differs rA rB"
    unfolding changed_rd_mem by blast
  with c have "c = \<lparr>key_rc = k, from_rc = rB, to_rc = rA\<rparr> \<and>
      map_of (indexByName keyRel b) k = Some rB \<and> map_of (indexByName keyRel a) k = Some rA \<and>
      relation_differs rB rA"
    using relation_differs_sym [of rA rB] by (simp add: mirror_rc_def)
  then show "c \<in> set (changed_rd (diffRelations b a))"
    unfolding changed_rd_mem by blast
next
  fix c assume "c \<in> set (changed_rd (diffRelations b a))"
  then obtain k rB rA where c: "c = \<lparr>key_rc = k, from_rc = rB, to_rc = rA\<rparr>"
    and m: "map_of (indexByName keyRel b) k = Some rB" "map_of (indexByName keyRel a) k = Some rA"
    and n: "relation_differs rB rA"
    unfolding changed_rd_mem by blast
  let ?d = "\<lparr>key_rc = k, from_rc = rA, to_rc = rB\<rparr>"
  from n have "relation_differs rA rB" using relation_differs_sym [of rA rB] by simp
  with m have "?d \<in> set (changed_rd (diffRelations a b))"
    unfolding changed_rd_mem by blast
  moreover from c have "c = mirror_rc ?d" by (simp add: mirror_rc_def)
  ultimately show "c \<in> mirror_rc ` set (changed_rd (diffRelations a b))" by blast
qed

text \<open>
  C6.  For all documents the diff is antisymmetric: what \<open>diff(A, B)\<close> reports as added
  is what \<open>diff(B, A)\<close> reports as removed, and conversely, as sequences; and the changed
  entries of \<open>diff(B, A)\<close> are, as a set, the mirror images of those of \<open>diff(A, B)\<close>
  (the changed attributes of an entity again read as a set).  The same holds for
  relations.
\<close>

theorem diff_antisymmetric:
  "added_ed (diffEntities a b) = removed_ed (diffEntities b a) \<and>
   removed_ed (diffEntities a b) = added_ed (diffEntities b a) \<and>
   ec_view ` mirror_ec ` set (changed_ed (diffEntities a b)) = ec_view ` set (changed_ed (diffEntities b a)) \<and>
   added_rd (diffRelations r q) = removed_rd (diffRelations q r) \<and>
   removed_rd (diffRelations r q) = added_rd (diffRelations q r) \<and>
   mirror_rc ` set (changed_rd (diffRelations r q)) = set (changed_rd (diffRelations q r))"
proof -
  have "added_ed (diffEntities a b) = removed_ed (diffEntities b a)"
    and "removed_ed (diffEntities a b) = added_ed (diffEntities b a)"
    by (simp_all add: diffEntities_def Let_def)
  moreover have "added_rd (diffRelations r q) = removed_rd (diffRelations q r)"
    and "removed_rd (diffRelations r q) = added_rd (diffRelations q r)"
    by (simp_all add: diffRelations_def Let_def)
  moreover have "ec_view ` mirror_ec ` set (changed_ed (diffEntities a b)) =
      ec_view ` set (changed_ed (diffEntities b a))"
    using changed_ed_mirror_subset changed_ed_mirror_supset by (rule subset_antisym)
  ultimately show ?thesis using changed_rd_mirror by simp
qed

theorem diff_antisymmetric_witness:
  "added_ed (diffEntities w_entsA w_entsB) = removed_ed (diffEntities w_entsB w_entsA) \<and>
   map name_ent (added_ed (diffEntities w_entsA w_entsB)) = [''G''] \<and>
   map name_ent (removed_ed (diffEntities w_entsA w_entsB)) = [''F''] \<and>
   map name_ent (added_ed (diffEntities w_entsB w_entsA)) = [''F''] \<and>
   map name_ec (changed_ed (diffEntities w_entsA w_entsB)) = [''E''] \<and>
   ec_view ` mirror_ec ` set (changed_ed (diffEntities w_entsA w_entsB)) =
     ec_view ` set (changed_ed (diffEntities w_entsB w_entsA)) \<and>
   changed_rd (diffRelations [w_rel1] [w_rel2]) = [\<lparr>key_rc = ''E::F'', from_rc = w_rel1, to_rc = w_rel2\<rparr>] \<and>
   set (changed_rd (diffRelations [w_rel2] [w_rel1])) = {\<lparr>key_rc = ''E::F'', from_rc = w_rel2, to_rc = w_rel1\<rparr>}"
proof -
  have e1: "map name_ent (added_ed (diffEntities w_entsA w_entsB)) = [''G'']"
    and e2: "map name_ent (removed_ed (diffEntities w_entsA w_entsB)) = [''F'']"
    and e3: "map name_ec (changed_ed (diffEntities w_entsA w_entsB)) = [''E'']"
    and e4: "changed_rd (diffRelations [w_rel1] [w_rel2]) = [\<lparr>key_rc = ''E::F'', from_rc = w_rel1, to_rc = w_rel2\<rparr>]"
    by code_simp+
  note t = diff_antisymmetric [of w_entsA w_entsB "[w_rel1]" "[w_rel2]"]
  from t e4 have "set (changed_rd (diffRelations [w_rel2] [w_rel1])) =
      {\<lparr>key_rc = ''E::F'', from_rc = w_rel2, to_rc = w_rel1\<rparr>}"
    by (simp add: mirror_rc_def)
  with t e1 e2 e3 e4 show ?thesis by simp
qed

section \<open>The loops of the merge\<close>

lemma map_set_fresh: "k \<notin> fst ` set m \<Longrightarrow> map_set k v m = m @ [(k, v)]"
  unfolding map_set_def by (induction m) auto

lemma put_all_Nil: "put_all f res [] = res"
  by (simp add: put_all_def)

lemma put_all_Cons:
  "put_all f res (k # ks) = put_all f (case f k of None \<Rightarrow> res | Some v \<Rightarrow> map_set k v res) ks"
  by (simp add: put_all_def)

lemma put_all_fresh:
  "distinct ks \<Longrightarrow> set ks \<inter> fst ` set res = {} \<Longrightarrow>
   put_all f res ks = res @ concat (map (\<lambda>k. map (Pair k) (opt_list (f k))) ks)"
proof (induction ks arbitrary: res)
  case Nil
  then show ?case by (simp add: put_all_Nil)
next
  case (Cons k ks)
  show ?case
  proof (cases "f k")
    case None
    with Cons show ?thesis by (simp add: put_all_Cons)
  next
    case (Some v)
    from Cons.prems have fresh: "k \<notin> fst ` set res" by auto
    have "set ks \<inter> fst ` set (res @ [(k, v)]) = {}" using Cons.prems by auto
    with Cons.IH [of "res @ [(k, v)]"] Cons.prems
    have "put_all f (res @ [(k, v)]) ks =
            (res @ [(k, v)]) @ concat (map (\<lambda>k. map (Pair k) (opt_list (f k))) ks)" by simp
    with Some fresh show ?thesis by (simp add: put_all_Cons map_set_fresh)
  qed
qed

lemma put_all_empty:
  "distinct ks \<Longrightarrow> map snd (put_all f [] ks) = concat (map (\<lambda>k. opt_list (f k)) ks)"
proof -
  assume d: "distinct ks"
  have "map snd (concat (map (\<lambda>k. map (Pair k) (opt_list (f k))) ks)) = concat (map (\<lambda>k. opt_list (f k)) ks)"
    by (induction ks) (simp_all add: comp_def)
  with put_all_fresh [OF d, of "[]" f] show ?thesis by simp
qed

lemma merge_attrs_loop_eq:
  "merge_attrs_loop name bas oas tas ans (m, cs) =
     (put_all (\<lambda>an. fst (merge_attr name an (find_attr bas an) (find_attr oas an) (find_attr tas an))) m ans,
      cs @ concat (map (\<lambda>an. snd (merge_attr name an (find_attr bas an) (find_attr oas an) (find_attr tas an))) ans))"
  by (induction ans arbitrary: m cs) (simp_all add: put_all_Nil put_all_Cons split: prod.splits)

lemma merge_entities_loop_eq:
  "merge_entities_loop bE oE tE ns (m, cs) =
     (put_all (\<lambda>n. fst (merge_entity n (map_get bE n) (map_get oE n) (map_get tE n))) m ns,
      cs @ concat (map (\<lambda>n. snd (merge_entity n (map_get bE n) (map_get oE n) (map_get tE n))) ns))"
  by (induction ns arbitrary: m cs) (simp_all add: put_all_Nil put_all_Cons split: prod.splits)

lemma merge_relations_loop_eq:
  "merge_relations_loop bR oR tR ks (m, cs) =
     (put_all (\<lambda>k. fst (merge_relation k (map_get bR k) (map_get oR k) (map_get tR k))) m ks,
      cs @ concat (map (\<lambda>k. snd (merge_relation k (map_get bR k) (map_get oR k) (map_get tR k))) ks))"
  by (induction ks arbitrary: m cs) (simp_all add: put_all_Nil put_all_Cons split: prod.splits)

lemma distinct_allNames: "distinct (allNames b o' t)"
  by (simp add: allNames_def distinct_new_Set)

lemma distinct_allR: "distinct (allR b o' t)"
  by (simp add: allR_def distinct_new_Set)

lemma threeWayMerge_entities:
  "entities (result (threeWayMerge b o' t)) =
     concat (map (\<lambda>n. opt_list (fst (entityAt b o' t n))) (allNames b o' t))"
  using put_all_empty [OF distinct_allNames, of "\<lambda>n. fst (entityAt b o' t n)" b o' t]
  by (simp add: threeWayMerge_def Let_def merge_entities_loop_eq merge_relations_loop_eq
      map_values_def entityAt_def allNames_def)

lemma threeWayMerge_relations:
  "relations (result (threeWayMerge b o' t)) =
     concat (map (\<lambda>k. opt_list (fst (relationAt b o' t k))) (allR b o' t))"
  using put_all_empty [OF distinct_allR, of "\<lambda>k. fst (relationAt b o' t k)" b o' t]
  by (simp add: threeWayMerge_def Let_def merge_entities_loop_eq merge_relations_loop_eq
      map_values_def relationAt_def allR_def)

lemma threeWayMerge_conflicts:
  "conflicts (threeWayMerge b o' t) =
     concat (map (\<lambda>n. snd (entityAt b o' t n)) (allNames b o' t)) @
     concat (map (\<lambda>k. snd (relationAt b o' t k)) (allR b o' t))"
  by (simp add: threeWayMerge_def Let_def merge_entities_loop_eq merge_relations_loop_eq
      entityAt_def relationAt_def allNames_def allR_def)

lemma merge_both_eq:
  "merge_both name b o' t =
     (let bst = (case b of None \<Rightarrow> None | Some e \<Rightarrow> stereotype_ent e);
          bas = (case b of None \<Rightarrow> [] | Some e \<Rightarrow> attrs_ent e);
          names = new_Set (map name_attr (attrs_ent o') @ map name_attr (attrs_ent t) @ map name_attr bas)
      in (\<lparr>name_ent = name,
           stereotype_ent = nullish (stereotype_ent o') (nullish (stereotype_ent t) bst),
           attrs_ent = concat (map (\<lambda>an. opt_list (fst (merge_attr name an (find_attr bas an)
                          (find_attr (attrs_ent o') an) (find_attr (attrs_ent t) an)))) names)\<rparr>,
          (if pick (stereotype_ent o') \<noteq> pick (stereotype_ent t) \<and>
              pick (stereotype_ent o') \<noteq> pick bst \<and> pick (stereotype_ent t) \<noteq> pick bst
           then [EntityStereotypeConflict name (stereotype_ent o') (stereotype_ent t)] else []) @
          concat (map (\<lambda>an. snd (merge_attr name an (find_attr bas an)
                          (find_attr (attrs_ent o') an) (find_attr (attrs_ent t) an))) names)))"
  by (simp add: merge_both_def Let_def merge_attrs_loop_eq map_values_def put_all_empty distinct_new_Set)

lemma filter_concat_key:
  assumes "distinct ks" and "\<And>k'. k' \<in> set ks \<Longrightarrow> k' \<noteq> k \<Longrightarrow> filter P (g k') = []"
  shows "filter P (concat (map g ks)) = (if k \<in> set ks then filter P (g k) else [])"
  using assms by (induction ks) auto

section \<open>Keys and values of the merged document\<close>

lemma foldl_index_key:
  "(\<And>k v. map_of m k = Some v \<Longrightarrow> nm v = k) \<Longrightarrow>
   map_of (foldl (\<lambda>m it. map_set (nm it) it m) m arr) k = Some v \<Longrightarrow> nm v = k"
proof (induction arr arbitrary: m)
  case Nil
  then show ?case by simp
next
  case (Cons a arr)
  have "\<And>k v. map_of (map_set (nm a) a m) k = Some v \<Longrightarrow> nm v = k"
    using Cons.prems(1) by (auto simp: map_of_map_set split: if_splits)
  from Cons.IH [OF this] Cons.prems(2) show ?case by simp
qed

lemma indexEntities_key: "map_get (indexEntities d) n = Some e \<Longrightarrow> name_ent e = n"
  using foldl_index_key [of "[]" name_ent "entities d" n e]
  by (simp add: indexEntities_def map_get_def)

lemma indexRelations_key: "map_get (indexRelations d) k = Some r \<Longrightarrow> keyRel r = k"
  using foldl_index_key [of "[]" keyRel "relations d" k r]
  by (simp add: indexRelations_def map_get_def)

lemma map_get_keys: "map_get m k = Some v \<Longrightarrow> k \<in> set (map_keys m)"
  by (auto simp: map_get_def map_keys_def dest: map_of_SomeD intro: rev_image_eqI)

lemma find_attr_Some: "find_attr as an = Some a \<Longrightarrow> a \<in> set as \<and> name_attr a = an"
  by (auto simp: find_attr_def find_Some_iff)

lemma merge_attr_fst: "fst (merge_attr n an bo ao at) = nullish ao at"
  by (cases "(n, an, bo, ao, at)" rule: merge_attr.cases) auto

lemma merge_relation_fst: "fst (merge_relation k b o' t) = nullish o' t"
  by (cases "(k, b, o', t)" rule: merge_relation.cases) auto

lemma merge_attr_conflicts:
  "c \<in> set (snd (merge_attr n an bo ao at)) \<Longrightarrow> \<exists>x y. c = AttrConflict n an x y"
  by (cases "(n, an, bo, ao, at)" rule: merge_attr.cases) (auto split: if_splits)

lemma merge_relation_conflicts:
  "c \<in> set (snd (merge_relation k b o' t)) \<Longrightarrow> \<exists>x y. c = RelationConflict k x y"
  by (cases "(k, b, o', t)" rule: merge_relation.cases) (auto split: if_splits)

lemma merge_both_name: "name_ent (fst (merge_both n b o' t)) = n"
  by (simp add: merge_both_eq Let_def)

lemma merge_both_conflicts:
  "c \<in> set (snd (merge_both n b o' t)) \<Longrightarrow>
     (\<exists>x y. c = EntityStereotypeConflict n x y) \<or> (\<exists>an x y. c = AttrConflict n an x y)"
  by (auto simp: merge_both_eq Let_def split: if_splits dest: merge_attr_conflicts)

lemma merge_entity_conflicts:
  "c \<in> set (snd (merge_entity n b o' t)) \<Longrightarrow>
     (\<exists>x y. c = EntityStereotypeConflict n x y) \<or> (\<exists>an x y. c = AttrConflict n an x y)"
  by (cases "(n, b, o', t)" rule: merge_entity.cases)
    (auto simp: case_prod_beta dest: merge_both_conflicts)

lemma entityAt_name: "fst (entityAt b o' t n) = Some e \<Longrightarrow> name_ent e = n"
  unfolding entityAt_def
  by (cases "(n, map_get (indexEntities b) n, map_get (indexEntities o') n, map_get (indexEntities t) n)"
      rule: merge_entity.cases)
    (auto simp: case_prod_beta merge_both_name dest: indexEntities_key)

lemma relationAt_key: "fst (relationAt b o' t k) = Some r \<Longrightarrow> keyRel r = k"
  unfolding relationAt_def merge_relation_fst
  by (cases "map_get (indexRelations o') k") (auto dest: indexRelations_key)

lemma in_allNames_ours: "map_get (indexEntities o') n = Some e \<Longrightarrow> n \<in> set (allNames b o' t)"
  by (auto simp: allNames_def set_new_Set dest: map_get_keys)

lemma in_allR_ours: "map_get (indexRelations o') k = Some r \<Longrightarrow> k \<in> set (allR b o' t)"
  by (auto simp: allR_def set_new_Set dest: map_get_keys)



text \<open>The entity and the relation of the merged document under a key.\<close>

lemma merged_entity_in:
  assumes "n \<in> set (allNames b o' t)"
  shows "filter (\<lambda>x. name_ent x = n) (entities (result (threeWayMerge b o' t))) =
           opt_list (fst (entityAt b o' t n))"
proof -
  have other: "filter (\<lambda>x. name_ent x = n) (opt_list (fst (entityAt b o' t n'))) = []" if "n' \<noteq> n" for n'
    using that entityAt_name [of b o' t n'] by (cases "fst (entityAt b o' t n')") auto
  have here: "filter (\<lambda>x. name_ent x = n) (opt_list (fst (entityAt b o' t n))) = opt_list (fst (entityAt b o' t n))"
    using entityAt_name [of b o' t n] by (cases "fst (entityAt b o' t n)") auto
  show ?thesis
    unfolding threeWayMerge_entities
    using filter_concat_key [OF distinct_allNames, of b o' t n "\<lambda>x. name_ent x = n"
        "\<lambda>n. opt_list (fst (entityAt b o' t n))"] other here assms
    by simp
qed

lemma merged_entity_at:
  assumes "map_get (indexEntities o') n = Some e"
  shows "filter (\<lambda>x. name_ent x = n) (entities (result (threeWayMerge b o' t))) =
           opt_list (fst (entityAt b o' t n))"
  using merged_entity_in [OF in_allNames_ours [OF assms]] .

lemma merged_relation_in:
  assumes "k \<in> set (allR b o' t)"
  shows "filter (\<lambda>x. keyRel x = k) (relations (result (threeWayMerge b o' t))) =
           opt_list (fst (relationAt b o' t k))"
proof -
  have other: "filter (\<lambda>x. keyRel x = k) (opt_list (fst (relationAt b o' t k'))) = []" if "k' \<noteq> k" for k'
    using that relationAt_key [of b o' t k'] by (cases "fst (relationAt b o' t k')") auto
  have here: "filter (\<lambda>x. keyRel x = k) (opt_list (fst (relationAt b o' t k))) = opt_list (fst (relationAt b o' t k))"
    using relationAt_key [of b o' t k] by (cases "fst (relationAt b o' t k)") auto
  show ?thesis
    unfolding threeWayMerge_relations
    using filter_concat_key [OF distinct_allR, of b o' t k "\<lambda>x. keyRel x = k"
        "\<lambda>k. opt_list (fst (relationAt b o' t k))"] other here assms
    by simp
qed

lemma merged_relation_at:
  assumes "map_get (indexRelations o') k = Some r"
  shows "filter (\<lambda>x. keyRel x = k) (relations (result (threeWayMerge b o' t))) = [r]"
  using merged_relation_in [OF in_allR_ours [OF assms]] assms
  by (simp add: relationAt_def merge_relation_fst)

lemma merged_attr_at:
  assumes "find_attr (attrs_ent o') an = Some ao"
  shows "filter (\<lambda>a. name_attr a = an) (attrs_ent (fst (merge_both n b o' t))) = [ao]"
proof -
  let ?bas = "case b of None \<Rightarrow> [] | Some e \<Rightarrow> attrs_ent e"
  let ?names = "new_Set (map name_attr (attrs_ent o') @ map name_attr (attrs_ent t) @ map name_attr ?bas)"
  let ?g = "\<lambda>an. opt_list (nullish (find_attr (attrs_ent o') an) (find_attr (attrs_ent t) an))"
  have a: "attrs_ent (fst (merge_both n b o' t)) = concat (map ?g ?names)"
    by (simp add: merge_both_eq Let_def merge_attr_fst)
  have nm: "name_attr x = an'" if "x \<in> set (?g an')" for x an'
  proof (cases "find_attr (attrs_ent o') an'")
    case None
    with that show ?thesis
      by (cases "find_attr (attrs_ent t) an'") (auto dest: find_attr_Some)
  next
    case (Some y)
    with that show ?thesis by (auto dest: find_attr_Some)
  qed
  have other: "filter (\<lambda>a. name_attr a = an) (?g an') = []" if "an' \<noteq> an" for an'
    using that nm [of _ an'] by (auto simp: filter_empty_conv)
  have here: "filter (\<lambda>a. name_attr a = an) (?g an) = [ao]"
    using assms find_attr_Some [OF assms] by simp
  have mem: "an \<in> set ?names"
    using find_attr_Some [OF assms] by (auto simp: set_new_Set)
  show ?thesis
    unfolding a
    using filter_concat_key [OF distinct_new_Set, of _ an "\<lambda>a. name_attr a = an" ?g] other here mem
    by simp
qed

text \<open>The conflicts of the merge for one key.\<close>

lemma relation_conflicts_at:
  assumes "map_get (indexRelations o') k = Some r"
  shows "filter (is_relation_conflict k) (conflicts (threeWayMerge b o' t)) = snd (relationAt b o' t k)"
proof -
  have e: "filter (is_relation_conflict k) (concat (map (\<lambda>n. snd (entityAt b o' t n)) (allNames b o' t))) = []"
    by (auto simp: filter_empty_conv entityAt_def dest!: merge_entity_conflicts)
  have other: "filter (is_relation_conflict k) (snd (relationAt b o' t k')) = []" if "k' \<noteq> k" for k'
    using that by (auto simp: filter_empty_conv relationAt_def dest!: merge_relation_conflicts)
  have here: "filter (is_relation_conflict k) (snd (relationAt b o' t k)) = snd (relationAt b o' t k)"
    by (auto simp: filter_id_conv relationAt_def dest!: merge_relation_conflicts)
  show ?thesis
    unfolding threeWayMerge_conflicts filter_append e
    using filter_concat_key [OF distinct_allR, of b o' t k "is_relation_conflict k"
        "\<lambda>k. snd (relationAt b o' t k)"] other here in_allR_ours [OF assms]
    by simp
qed

lemma entity_conflicts_at:
  assumes "map_get (indexEntities o') n = Some e"
    and "\<And>c. P c \<Longrightarrow> (\<exists>x y. c = EntityStereotypeConflict n x y) \<or> (\<exists>an x y. c = AttrConflict n an x y)"
  shows "filter P (conflicts (threeWayMerge b o' t)) = filter P (snd (entityAt b o' t n))"
proof -
  have r: "filter P (concat (map (\<lambda>k. snd (relationAt b o' t k)) (allR b o' t))) = []"
    using assms(2) by (auto simp: filter_empty_conv relationAt_def dest!: merge_relation_conflicts)
  have other: "filter P (snd (entityAt b o' t n')) = []" if "n' \<noteq> n" for n'
    using that assms(2) by (auto simp: filter_empty_conv entityAt_def dest!: merge_entity_conflicts)
  show ?thesis
    unfolding threeWayMerge_conflicts filter_append r
    using filter_concat_key [OF distinct_allNames, of b o' t n P "\<lambda>n. snd (entityAt b o' t n)"]
      other in_allNames_ours [OF assms(1)]
    by simp
qed

lemma is_attr_conflict_cases:
  "is_attr_conflict n an c \<Longrightarrow>
     (\<exists>x y. c = EntityStereotypeConflict n x y) \<or> (\<exists>an x y. c = AttrConflict n an x y)"
  by (cases c) auto

lemma is_stereotype_conflict_cases:
  "is_stereotype_conflict n c \<Longrightarrow>
     (\<exists>x y. c = EntityStereotypeConflict n x y) \<or> (\<exists>an x y. c = AttrConflict n an x y)"
  by (cases c) auto

lemma attr_conflicts_at:
  assumes "find_attr (attrs_ent o') an = Some ao"
  shows "filter (is_attr_conflict n an) (snd (merge_both n b o' t)) =
           snd (merge_attr n an (find_attr (case b of None \<Rightarrow> [] | Some e \<Rightarrow> attrs_ent e) an)
                  (Some ao) (find_attr (attrs_ent t) an))"
proof -
  let ?bas = "case b of None \<Rightarrow> [] | Some e \<Rightarrow> attrs_ent e"
  let ?names = "new_Set (map name_attr (attrs_ent o') @ map name_attr (attrs_ent t) @ map name_attr ?bas)"
  let ?g = "\<lambda>an. snd (merge_attr n an (find_attr ?bas an) (find_attr (attrs_ent o') an) (find_attr (attrs_ent t) an))"
  have other: "filter (is_attr_conflict n an) (?g an') = []" if "an' \<noteq> an" for an'
    using that by (auto simp: filter_empty_conv dest!: merge_attr_conflicts)
  have here: "filter (is_attr_conflict n an) (?g an) = ?g an"
    by (auto simp: filter_id_conv dest!: merge_attr_conflicts)
  have mem: "an \<in> set ?names"
    using find_attr_Some [OF assms] by (auto simp: set_new_Set)
  have "filter (is_attr_conflict n an) (snd (merge_both n b o' t)) =
          filter (is_attr_conflict n an) (concat (map ?g ?names))"
    by (simp add: merge_both_eq Let_def)
  also have "\<dots> = ?g an"
    using filter_concat_key [OF distinct_new_Set, of _ an "is_attr_conflict n an" ?g] other here mem
    by simp
  finally show ?thesis using assms by simp
qed

lemma stereotype_conflicts_at:
  "filter (is_stereotype_conflict n) (snd (merge_both n b o' t)) =
     (let bst = (case b of None \<Rightarrow> None | Some e \<Rightarrow> stereotype_ent e)
      in if pick (stereotype_ent o') \<noteq> pick (stereotype_ent t) \<and>
            pick (stereotype_ent o') \<noteq> pick bst \<and> pick (stereotype_ent t) \<noteq> pick bst
         then [EntityStereotypeConflict n (stereotype_ent o') (stereotype_ent t)] else [])"
proof -
  have "filter (is_stereotype_conflict n) (concat (map (\<lambda>an. snd (merge_attr n an (f an) (g an) (h an))) ns)) = []"
    for f g h ns
    by (auto simp: filter_empty_conv dest!: merge_attr_conflicts)
  then show ?thesis by (simp add: merge_both_eq Let_def)
qed

section \<open>Keys that both sides hold\<close>



lemma entityAt_both:
  assumes "map_get (indexEntities o') n = Some eo" and "map_get (indexEntities t) n = Some et"
  shows "entityAt b o' t n =
     (Some (fst (merge_both n (map_get (indexEntities b) n) eo et)),
      snd (merge_both n (map_get (indexEntities b) n) eo et))"
  using assms by (simp add: entityAt_def case_prod_beta)

lemma attr_of_both:
  assumes "map_get (indexEntities o') n = Some eo" and "map_get (indexEntities t) n = Some et"
    and "find_attr (attrs_ent eo) an = Some ao"
  shows "\<exists>e. filter (\<lambda>x. name_ent x = n) (entities (result (threeWayMerge b o' t))) = [e] \<and>
             filter (\<lambda>a. name_attr a = an) (attrs_ent e) = [ao]"
  using merged_entity_at [OF assms(1), of b t] entityAt_both [OF assms(1,2), of b]
    merged_attr_at [OF assms(3), of n "map_get (indexEntities b) n" et]
  by simp

lemma attr_conflicts_of_both:
  assumes "map_get (indexEntities o') n = Some eo" and "map_get (indexEntities t) n = Some et"
    and "find_attr (attrs_ent eo) an = Some ao"
  shows "filter (is_attr_conflict n an) (conflicts (threeWayMerge b o' t)) =
           snd (merge_attr n an
                  (find_attr (case map_get (indexEntities b) n of None \<Rightarrow> [] | Some e \<Rightarrow> attrs_ent e) an)
                  (Some ao) (find_attr (attrs_ent et) an))"
  using entity_conflicts_at [where P = "is_attr_conflict n an" and b = b and t = t,
      OF assms(1) is_attr_conflict_cases]
    entityAt_both [OF assms(1,2), of b]
    attr_conflicts_at [OF assms(3), of n "map_get (indexEntities b) n" et]
  by simp

lemma stereotype_conflicts_of_both:
  assumes "map_get (indexEntities o') n = Some eo" and "map_get (indexEntities t) n = Some et"
  shows "filter (is_stereotype_conflict n) (conflicts (threeWayMerge b o' t)) =
           filter (is_stereotype_conflict n) (snd (merge_both n (map_get (indexEntities b) n) eo et))"
  using entity_conflicts_at [where P = "is_stereotype_conflict n" and b = b and t = t,
      OF assms(1) is_stereotype_conflict_cases]
    entityAt_both [OF assms(1,2), of b]
  by simp

lemma stereotype_of_both:
  assumes "map_get (indexEntities o') n = Some eo" and "map_get (indexEntities t) n = Some et"
  shows "\<exists>e. filter (\<lambda>x. name_ent x = n) (entities (result (threeWayMerge b o' t))) = [e] \<and>
             stereotype_ent e = nullish (stereotype_ent eo) (nullish (stereotype_ent et)
                (case map_get (indexEntities b) n of None \<Rightarrow> None | Some e \<Rightarrow> stereotype_ent e))"
  using merged_entity_at [OF assms(1), of b t] entityAt_both [OF assms(1,2), of b]
  by (simp add: merge_both_eq Let_def)

text \<open>
  C4 as stated fails for the stereotype of an entity.  Ours holds the empty stereotype,
  theirs holds \<open>abstract\<close> and base has no such entity: no conflict is recorded.  And
  when ours has no stereotype, theirs holds \<open>abstract\<close> and base holds \<open>base\<close>, a conflict
  is recorded but the merged entity holds the stereotype of theirs.
\<close>

theorem stereotype_conflict_counterexample:
  "map stereotype_ent (entities w_blank) = [Some []] \<and>
   map stereotype_ent (entities w_abstract) = [Some ''abstract''] \<and>
   entities w_nobase = [] \<and>
   conflicts (threeWayMerge w_nobase w_blank w_abstract) = [] \<and>
   map stereotype_ent (entities w_unset) = [None] \<and>
   conflicts (threeWayMerge w_base w_unset w_abstract) =
     [EntityStereotypeConflict ''E'' None (Some ''abstract'')] \<and>
   map stereotype_ent (entities (result (threeWayMerge w_base w_unset w_abstract))) =
     [Some ''abstract'']"
  by code_simp

text \<open>
  C4, amended.  For every attribute (of an entity that ours and theirs both hold) and
  every relation that both sides hold with unequal values, neither of them equal to the
  value of base, or with no entry in base: exactly one conflict is recorded for the key,
  carrying both values, and the merged document holds the value of ours.  For the
  stereotype of an entity both sides hold, an unset stereotype and a missing base entity
  read as the empty string: when the three readings differ from one another, exactly one
  conflict is recorded, carrying both stereotypes, and the merged entity holds the
  stereotype of ours if ours has one set, else that of theirs.
\<close>

theorem conflict_recorded_ours_kept:
  "(map_get (indexEntities ours) n = Some eo \<and> map_get (indexEntities theirs) n = Some et \<and>
    find_attr (attrs_ent eo) an = Some ao \<and> find_attr (attrs_ent et) an = Some at \<and>
    \<not> same ao at \<and>
    (case find_attr (case map_get (indexEntities base) n of None \<Rightarrow> [] | Some eb \<Rightarrow> attrs_ent eb) an of
       None \<Rightarrow> True
     | Some bo \<Rightarrow> \<not> same ao bo \<and> \<not> same at bo)
    \<longrightarrow> filter (is_attr_conflict n an) (conflicts (threeWayMerge base ours theirs)) =
           [AttrConflict n an ao at] \<and>
        (\<exists>e. filter (\<lambda>x. name_ent x = n) (entities (result (threeWayMerge base ours theirs))) = [e] \<and>
             filter (\<lambda>a. name_attr a = an) (attrs_ent e) = [ao])) \<and>
   (map_get (indexRelations ours) k = Some ro \<and> map_get (indexRelations theirs) k = Some rt \<and>
    \<not> eq_rel ro rt \<and>
    (case map_get (indexRelations base) k of None \<Rightarrow> True | Some rb \<Rightarrow> \<not> eq_rel ro rb \<and> \<not> eq_rel rt rb)
    \<longrightarrow> filter (is_relation_conflict k) (conflicts (threeWayMerge base ours theirs)) =
           [RelationConflict k ro rt] \<and>
        filter (\<lambda>r. keyRel r = k) (relations (result (threeWayMerge base ours theirs))) = [ro]) \<and>
   (map_get (indexEntities ours) n = Some eo \<and> map_get (indexEntities theirs) n = Some et \<and>
    pick (stereotype_ent eo) \<noteq> pick (stereotype_ent et) \<and>
    pick (stereotype_ent eo) \<noteq>
      pick (case map_get (indexEntities base) n of None \<Rightarrow> None | Some eb \<Rightarrow> stereotype_ent eb) \<and>
    pick (stereotype_ent et) \<noteq>
      pick (case map_get (indexEntities base) n of None \<Rightarrow> None | Some eb \<Rightarrow> stereotype_ent eb)
    \<longrightarrow> filter (is_stereotype_conflict n) (conflicts (threeWayMerge base ours theirs)) =
           [EntityStereotypeConflict n (stereotype_ent eo) (stereotype_ent et)] \<and>
        (\<exists>e. filter (\<lambda>x. name_ent x = n) (entities (result (threeWayMerge base ours theirs))) = [e] \<and>
             stereotype_ent e = nullish (stereotype_ent eo) (stereotype_ent et)))"
proof (intro conjI impI)
  assume h: "map_get (indexEntities ours) n = Some eo \<and> map_get (indexEntities theirs) n = Some et \<and>
    find_attr (attrs_ent eo) an = Some ao \<and> find_attr (attrs_ent et) an = Some at \<and>
    \<not> same ao at \<and>
    (case find_attr (case map_get (indexEntities base) n of None \<Rightarrow> [] | Some eb \<Rightarrow> attrs_ent eb) an of
       None \<Rightarrow> True
     | Some bo \<Rightarrow> \<not> same ao bo \<and> \<not> same at bo)"
  then have o: "map_get (indexEntities ours) n = Some eo" and t: "map_get (indexEntities theirs) n = Some et"
    and ao: "find_attr (attrs_ent eo) an = Some ao" by simp_all
  from h show "filter (is_attr_conflict n an) (conflicts (threeWayMerge base ours theirs)) =
           [AttrConflict n an ao at]"
    unfolding attr_conflicts_of_both [OF o t ao]
    by (cases "find_attr (case map_get (indexEntities base) n of None \<Rightarrow> [] | Some eb \<Rightarrow> attrs_ent eb) an")
      simp_all
  from attr_of_both [OF o t ao]
  show "\<exists>e. filter (\<lambda>x. name_ent x = n) (entities (result (threeWayMerge base ours theirs))) = [e] \<and>
             filter (\<lambda>a. name_attr a = an) (attrs_ent e) = [ao]" .
next
  assume h: "map_get (indexRelations ours) k = Some ro \<and> map_get (indexRelations theirs) k = Some rt \<and>
    \<not> eq_rel ro rt \<and>
    (case map_get (indexRelations base) k of None \<Rightarrow> True | Some rb \<Rightarrow> \<not> eq_rel ro rb \<and> \<not> eq_rel rt rb)"
  then have o: "map_get (indexRelations ours) k = Some ro" by simp
  from h show "filter (is_relation_conflict k) (conflicts (threeWayMerge base ours theirs)) =
           [RelationConflict k ro rt]"
    unfolding relation_conflicts_at [OF o]
    by (cases "map_get (indexRelations base) k") (simp_all add: relationAt_def)
  from merged_relation_at [OF o]
  show "filter (\<lambda>r. keyRel r = k) (relations (result (threeWayMerge base ours theirs))) = [ro]" .
next
  assume h: "map_get (indexEntities ours) n = Some eo \<and> map_get (indexEntities theirs) n = Some et \<and>
    pick (stereotype_ent eo) \<noteq> pick (stereotype_ent et) \<and>
    pick (stereotype_ent eo) \<noteq>
      pick (case map_get (indexEntities base) n of None \<Rightarrow> None | Some eb \<Rightarrow> stereotype_ent eb) \<and>
    pick (stereotype_ent et) \<noteq>
      pick (case map_get (indexEntities base) n of None \<Rightarrow> None | Some eb \<Rightarrow> stereotype_ent eb)"
  then have o: "map_get (indexEntities ours) n = Some eo" and t: "map_get (indexEntities theirs) n = Some et"
    by simp_all
  from h show "filter (is_stereotype_conflict n) (conflicts (threeWayMerge base ours theirs)) =
           [EntityStereotypeConflict n (stereotype_ent eo) (stereotype_ent et)]"
    unfolding stereotype_conflicts_of_both [OF o t] stereotype_conflicts_at
    by (simp add: Let_def)
  have "nullish (stereotype_ent eo) (nullish (stereotype_ent et) x) =
        nullish (stereotype_ent eo) (stereotype_ent et)" for x
    using h by (cases "stereotype_ent eo"; cases "stereotype_ent et") auto
  with stereotype_of_both [OF o t, of base]
  show "\<exists>e. filter (\<lambda>x. name_ent x = n) (entities (result (threeWayMerge base ours theirs))) = [e] \<and>
             stereotype_ent e = nullish (stereotype_ent eo) (stereotype_ent et)"
    by simp
qed

theorem conflict_recorded_ours_kept_witness:
  "map_get (indexEntities w_ours) ''E'' = Some (w_entE (Some ''ours'') w_attr_str) \<and>
   map_get (indexEntities w_theirs) ''E'' = Some (w_entE (Some ''theirs'') w_attr_bool) \<and>
   map_get (indexEntities w_base) ''E'' = Some (w_entE (Some ''base'') w_attr_int) \<and>
   \<not> same w_attr_str w_attr_bool \<and> \<not> same w_attr_str w_attr_int \<and> \<not> same w_attr_bool w_attr_int \<and>
   filter (is_attr_conflict ''E'' ''a'') (conflicts (threeWayMerge w_base w_ours w_theirs)) =
     [AttrConflict ''E'' ''a'' w_attr_str w_attr_bool] \<and>
   (\<exists>e. filter (\<lambda>x. name_ent x = ''E'') (entities (result (threeWayMerge w_base w_ours w_theirs))) = [e] \<and>
        filter (\<lambda>a. name_attr a = ''a'') (attrs_ent e) = [w_attr_str] \<and>
        stereotype_ent e = Some ''ours'') \<and>
   map_get (indexRelations w_ours) ''E::F'' = Some w_rel2 \<and>
   map_get (indexRelations w_theirs) ''E::F'' = Some w_rel3 \<and>
   map_get (indexRelations w_base) ''E::F'' = Some w_rel1 \<and>
   filter (is_relation_conflict ''E::F'') (conflicts (threeWayMerge w_base w_ours w_theirs)) =
     [RelationConflict ''E::F'' w_rel2 w_rel3] \<and>
   filter (\<lambda>r. keyRel r = ''E::F'') (relations (result (threeWayMerge w_base w_ours w_theirs))) = [w_rel2] \<and>
   filter (is_stereotype_conflict ''E'') (conflicts (threeWayMerge w_base w_ours w_theirs)) =
     [EntityStereotypeConflict ''E'' (Some ''ours'') (Some ''theirs'')]"
proof -
  have eo: "map_get (indexEntities w_ours) ''E'' = Some (w_entE (Some ''ours'') w_attr_str)"
    and et: "map_get (indexEntities w_theirs) ''E'' = Some (w_entE (Some ''theirs'') w_attr_bool)"
    and eb: "map_get (indexEntities w_base) ''E'' = Some (w_entE (Some ''base'') w_attr_int)"
    and ro: "map_get (indexRelations w_ours) ''E::F'' = Some w_rel2"
    and rt: "map_get (indexRelations w_theirs) ''E::F'' = Some w_rel3"
    and rb: "map_get (indexRelations w_base) ''E::F'' = Some w_rel1"
    by code_simp+
  have ne: "\<not> same w_attr_str w_attr_bool" "\<not> same w_attr_str w_attr_int" "\<not> same w_attr_bool w_attr_int"
    "\<not> eq_rel w_rel2 w_rel3" "\<not> eq_rel w_rel2 w_rel1" "\<not> eq_rel w_rel3 w_rel1"
    by (simp_all add: same_def eq_rel_def w_attr_str_def w_attr_bool_def w_attr_int_def
        w_rel1_def w_rel2_def w_rel3_def)
  have fa: "find_attr (attrs_ent (w_entE st a)) ''a'' = (if name_attr a = ''a'' then Some a else None)" for st a
    by (simp add: find_attr_def w_entE_def)
  have nm: "name_attr w_attr_str = ''a''" "name_attr w_attr_bool = ''a''" "name_attr w_attr_int = ''a''"
    by (simp_all add: w_attr_str_def w_attr_bool_def w_attr_int_def)
  have st: "stereotype_ent (w_entE st a) = st" for st a
    by (simp add: w_entE_def)
  from conflict_recorded_ours_kept [of w_ours "''E''" "w_entE (Some ''ours'') w_attr_str" w_theirs
      "w_entE (Some ''theirs'') w_attr_bool" "''a''" w_attr_str w_attr_bool w_base "''E::F''" w_rel2 w_rel3]
    eo et eb ro rt rb ne
  show ?thesis by (auto simp: fa nm st)
qed

section \<open>A key that one side changed\<close>

text \<open>
  C1 as stated fails.  Base and ours hold attribute \<open>a\<close> of entity \<open>E\<close> with type \<open>int\<close>
  and the association from \<open>E\<close> to \<open>F\<close>; theirs changed the type to \<open>string\<close> and the
  relation to a composition.  Theirs is the side that differs from base, and the merged
  document holds the values of ours.
\<close>

theorem one_side_changed_counterexample:
  "map attrs_ent (entities w_base) = [[w_attr_int], []] \<and> relations w_base = [w_rel1] \<and>
   map attrs_ent (entities w_ours) = [[w_attr_str], []] \<and> relations w_ours = [w_rel2] \<and>
   \<not> same w_attr_str w_attr_int \<and> \<not> eq_rel w_rel2 w_rel1 \<and>
   map attrs_ent (entities (result (threeWayMerge w_base w_base w_ours))) = [[w_attr_int], []] \<and>
   relations (result (threeWayMerge w_base w_base w_ours)) = [w_rel1] \<and>
   conflicts (threeWayMerge w_base w_base w_ours) = []"
  by code_simp

text \<open>
  C1, amended.  For every attribute (of an entity that base, ours and theirs hold) and
  every relation that both sides hold with unequal values of which exactly one equals the
  value of base, the merged document keeps the value of ours, whichever side it is that
  differs from base, and no conflict is recorded for the key.
\<close>

theorem one_side_changed_ours_kept:
  "(map_get (indexEntities ours) n = Some eo \<and> map_get (indexEntities theirs) n = Some et \<and>
    map_get (indexEntities base) n = Some eb \<and>
    find_attr (attrs_ent eo) an = Some ao \<and> find_attr (attrs_ent et) an = Some at \<and>
    find_attr (attrs_ent eb) an = Some bo \<and> \<not> same ao at \<and> same ao bo \<noteq> same at bo
    \<longrightarrow> filter (is_attr_conflict n an) (conflicts (threeWayMerge base ours theirs)) = [] \<and>
        (\<exists>e. filter (\<lambda>x. name_ent x = n) (entities (result (threeWayMerge base ours theirs))) = [e] \<and>
             filter (\<lambda>a. name_attr a = an) (attrs_ent e) = [ao])) \<and>
   (map_get (indexRelations ours) k = Some ro \<and> map_get (indexRelations theirs) k = Some rt \<and>
    map_get (indexRelations base) k = Some rb \<and> \<not> eq_rel ro rt \<and> eq_rel ro rb \<noteq> eq_rel rt rb
    \<longrightarrow> filter (is_relation_conflict k) (conflicts (threeWayMerge base ours theirs)) = [] \<and>
        filter (\<lambda>r. keyRel r = k) (relations (result (threeWayMerge base ours theirs))) = [ro])"
proof (intro conjI impI)
  assume h: "map_get (indexEntities ours) n = Some eo \<and> map_get (indexEntities theirs) n = Some et \<and>
    map_get (indexEntities base) n = Some eb \<and>
    find_attr (attrs_ent eo) an = Some ao \<and> find_attr (attrs_ent et) an = Some at \<and>
    find_attr (attrs_ent eb) an = Some bo \<and> \<not> same ao at \<and> same ao bo \<noteq> same at bo"
  then have o: "map_get (indexEntities ours) n = Some eo" and t: "map_get (indexEntities theirs) n = Some et"
    and ao: "find_attr (attrs_ent eo) an = Some ao" by simp_all
  from h show "filter (is_attr_conflict n an) (conflicts (threeWayMerge base ours theirs)) = []"
    unfolding attr_conflicts_of_both [OF o t ao] by auto
  from attr_of_both [OF o t ao]
  show "\<exists>e. filter (\<lambda>x. name_ent x = n) (entities (result (threeWayMerge base ours theirs))) = [e] \<and>
             filter (\<lambda>a. name_attr a = an) (attrs_ent e) = [ao]" .
next
  assume h: "map_get (indexRelations ours) k = Some ro \<and> map_get (indexRelations theirs) k = Some rt \<and>
    map_get (indexRelations base) k = Some rb \<and> \<not> eq_rel ro rt \<and> eq_rel ro rb \<noteq> eq_rel rt rb"
  then have o: "map_get (indexRelations ours) k = Some ro" by simp
  from h show "filter (is_relation_conflict k) (conflicts (threeWayMerge base ours theirs)) = []"
    unfolding relation_conflicts_at [OF o] by (auto simp: relationAt_def)
  from merged_relation_at [OF o]
  show "filter (\<lambda>r. keyRel r = k) (relations (result (threeWayMerge base ours theirs))) = [ro]" .
qed

theorem one_side_changed_ours_kept_witness:
  "map_get (indexEntities w_ours1) ''E'' = Some (w_entE (Some ''base'') w_attr_str) \<and>
   map_get (indexEntities w_theirs1) ''E'' = Some (w_entE (Some ''base'') w_attr_int) \<and>
   map_get (indexEntities w_base) ''E'' = Some (w_entE (Some ''base'') w_attr_int) \<and>
   \<not> same w_attr_str w_attr_int \<and> same w_attr_int w_attr_int \<and>
   filter (is_attr_conflict ''E'' ''a'') (conflicts (threeWayMerge w_base w_ours1 w_theirs1)) = [] \<and>
   (\<exists>e. filter (\<lambda>x. name_ent x = ''E'') (entities (result (threeWayMerge w_base w_ours1 w_theirs1))) = [e] \<and>
        filter (\<lambda>a. name_attr a = ''a'') (attrs_ent e) = [w_attr_str]) \<and>
   map_get (indexRelations w_ours1) ''E::F'' = Some w_rel1 \<and>
   map_get (indexRelations w_theirs1) ''E::F'' = Some w_rel2 \<and>
   map_get (indexRelations w_base) ''E::F'' = Some w_rel1 \<and>
   \<not> eq_rel w_rel1 w_rel2 \<and> eq_rel w_rel1 w_rel1 \<and>
   filter (is_relation_conflict ''E::F'') (conflicts (threeWayMerge w_base w_ours1 w_theirs1)) = [] \<and>
   filter (\<lambda>r. keyRel r = ''E::F'') (relations (result (threeWayMerge w_base w_ours1 w_theirs1))) = [w_rel1]"
proof -
  have eo: "map_get (indexEntities w_ours1) ''E'' = Some (w_entE (Some ''base'') w_attr_str)"
    and et: "map_get (indexEntities w_theirs1) ''E'' = Some (w_entE (Some ''base'') w_attr_int)"
    and eb: "map_get (indexEntities w_base) ''E'' = Some (w_entE (Some ''base'') w_attr_int)"
    and ro: "map_get (indexRelations w_ours1) ''E::F'' = Some w_rel1"
    and rt: "map_get (indexRelations w_theirs1) ''E::F'' = Some w_rel2"
    and rb: "map_get (indexRelations w_base) ''E::F'' = Some w_rel1"
    by code_simp+
  have ne: "\<not> same w_attr_str w_attr_int" "same w_attr_int w_attr_int"
    "\<not> eq_rel w_rel1 w_rel2" "eq_rel w_rel1 w_rel1" "\<not> eq_rel w_rel2 w_rel1"
    by (simp_all add: same_def eq_rel_def w_attr_str_def w_attr_int_def w_rel1_def w_rel2_def)
  have fa: "find_attr (attrs_ent (w_entE st a)) ''a'' = (if name_attr a = ''a'' then Some a else None)" for st a
    by (simp add: find_attr_def w_entE_def)
  have nm: "name_attr w_attr_str = ''a''" "name_attr w_attr_int = ''a''"
    by (simp_all add: w_attr_str_def w_attr_int_def)
  from one_side_changed_ours_kept [of w_ours1 "''E''" "w_entE (Some ''base'') w_attr_str" w_theirs1
      "w_entE (Some ''base'') w_attr_int" w_base "w_entE (Some ''base'') w_attr_int" "''a''"
      w_attr_str w_attr_int w_attr_int "''E::F''" w_rel1 w_rel2 w_rel1]
    eo et eb ro rt rb ne
  show ?thesis by (auto simp: fa nm)
qed

section \<open>Merging into an unchanged target\<close>





















end
